theory Spec2Isabelle
  imports Complex_Main "HOL-Library.Word" "HOL-Library.Sublist" "HOL-Library.Log_Nat"
begin

section \<open>The sitemap controller (controllers/sitemapController.js)\<close>

text \<open>
  A shallow embedding of the sitemap controller: \<open>escapeXml\<close>, \<open>urlEntry\<close>,
  \<open>buildSitemapXml\<close> and \<open>serveSitemap\<close>, together with the platform functions they
  call (\<open>String.prototype.replaceAll\<close>, \<open>encodeURIComponent\<close>,
  \<open>Date.prototype.toISOString\<close>, \<open>Number\<close>), modelled after ECMAScript.
\<close>

subsection \<open>JavaScript strings\<close>

text \<open>
  A JavaScript string is a finite sequence of 16-bit code units. String literals of the
  source are written \<open>js ''...''\<close>; all of them are ASCII.
\<close>

type_synonym u16 = "16 word"
type_synonym jsstring = "u16 list"

definition js :: "string \<Rightarrow> jsstring" where
  "js s = map of_char s"

text \<open>Truthiness of a possibly absent (\<open>undefined\<close> or \<open>null\<close>) string: absent and
  the empty string are falsy.\<close>

fun truthy :: "jsstring option \<Rightarrow> bool" where
  "truthy None = False"
| "truthy (Some s) = (s \<noteq> [])"

text \<open>\<open>Array.prototype.join\<close> on an array of strings.\<close>

fun join :: "jsstring \<Rightarrow> jsstring list \<Rightarrow> jsstring" where
  "join sep [] = []"
| "join sep [x] = x"
| "join sep (x # y # ys) = x @ sep @ join sep (y # ys)"

subsection \<open>Errors\<close>

text \<open>
  Every exception of the source is a value. \<open>TypeError\<close>, \<open>RangeError\<close> and
  \<open>URIError\<close> are raised by the language itself; \<open>CatalogError\<close> stands for a
  rejection of the catalog query (\<open>Product.find(...).lean().exec()\<close>), with its message.
\<close>

datatype error = TypeError | RangeError | URIError | CatalogError jsstring

subsection \<open>escapeXml\<close>

text \<open>
  \<open>str.replaceAll(pat, rep)\<close> with a string pattern: every occurrence of \<open>pat\<close>, found
  from left to right without overlap, is replaced by \<open>rep\<close> (none of the replacement
  strings of the source contains \<open>$\<close>). With the empty pattern the replacement is
  inserted before every code unit and at the end.
\<close>

function replaceAll_from :: "jsstring \<Rightarrow> jsstring \<Rightarrow> jsstring \<Rightarrow> jsstring" where
  "replaceAll_from pat rep s =
     (if s = [] then []
      else if prefix pat s \<and> pat \<noteq> [] then rep @ replaceAll_from pat rep (drop (length pat) s)
      else hd s # replaceAll_from pat rep (tl s))"
  by pat_completeness auto
termination
  by (relation "measure (\<lambda>(pat, rep, s). length s)") (auto simp: neq_Nil_conv)

declare replaceAll_from.simps [simp del]

definition replaceAll :: "jsstring \<Rightarrow> jsstring \<Rightarrow> jsstring \<Rightarrow> jsstring" where
  "replaceAll pat rep s =
     (if pat = [] then rep @ concat (map (\<lambda>c. c # rep) s) else replaceAll_from pat rep s)"

text \<open>\<open>escapeXml(str)\<close>, for a string argument (\<open>String(str)\<close> is then the identity):
  the five replacements in the order of the source.\<close>

definition escapeXml :: "jsstring \<Rightarrow> jsstring" where
  "escapeXml str =
     replaceAll (js [CHR 0x27]) (js ''&apos;'')
       (replaceAll (js ''\"'') (js ''&quot;'')
         (replaceAll (js ''>'') (js ''&gt;'')
           (replaceAll (js ''<'') (js ''&lt;'')
             (replaceAll (js ''&'') (js ''&amp;'') str))))"

text \<open>The claim's reading of escaping, one code unit at a time: each of the five
  reserved characters becomes its entity, every other code unit stays.\<close>

definition xmlEntity :: "u16 \<Rightarrow> jsstring" where
  "xmlEntity c =
     (if c = 0x26 then js ''&amp;''
      else if c = 0x3C then js ''&lt;''
      else if c = 0x3E then js ''&gt;''
      else if c = 0x22 then js ''&quot;''
      else if c = 0x27 then js ''&apos;''
      else [c])"

definition entities :: "jsstring list" where
  "entities = [js ''&amp;'', js ''&lt;'', js ''&gt;'', js ''&quot;'', js ''&apos;'']"

text \<open>Character data with no raw reserved character: no \<open><\<close>, \<open>>\<close>, \<open>"\<close> or
  \<open>'\<close>, and every \<open>&\<close> is the start of one of the five entities.\<close>

fun xmlText :: "jsstring \<Rightarrow> bool" where
  "xmlText [] = True"
| "xmlText (c # cs) =
     ((if c = 0x26 then list_ex (\<lambda>e. prefix e (c # cs)) entities
       else c \<noteq> 0x3C \<and> c \<noteq> 0x3E \<and> c \<noteq> 0x22 \<and> c \<noteq> 0x27)
      \<and> xmlText cs)"

subsection \<open>encodeURIComponent\<close>

text \<open>
  ECMAScript's \<open>Encode\<close> with the unreserved set of \<open>encodeURIComponent\<close>: letters,
  digits and \<open>- _ . ! ~ * ' ( )\<close> are kept; every other code point is written as the
  percent-escaped octets of its UTF-8 encoding; an unpaired surrogate raises \<open>URIError\<close>.
\<close>

definition uriUnescaped :: "u16 \<Rightarrow> bool" where
  "uriUnescaped c =
     ((0x41 \<le> c \<and> c \<le> 0x5A) \<or> (0x61 \<le> c \<and> c \<le> 0x7A) \<or> (0x30 \<le> c \<and> c \<le> 0x39)
      \<or> c \<in> set (js ''-_.!~*'()''))"

definition utf8 :: "nat \<Rightarrow> nat list" where
  "utf8 v =
     (if v < 0x80 then [v]
      else if v < 0x800 then [0xC0 + v div 0x40, 0x80 + v mod 0x40]
      else if v < 0x10000 then
        [0xE0 + v div 0x1000, 0x80 + (v div 0x40) mod 0x40, 0x80 + v mod 0x40]
      else
        [0xF0 + v div 0x40000, 0x80 + (v div 0x1000) mod 0x40,
         0x80 + (v div 0x40) mod 0x40, 0x80 + v mod 0x40])"

definition hexDigit :: "nat \<Rightarrow> u16" where
  "hexDigit n = js ''0123456789ABCDEF'' ! (n mod 16)"

definition percentOctet :: "nat \<Rightarrow> jsstring" where
  "percentOctet b = [0x25, hexDigit (b div 16), hexDigit b]"

definition percentEncode :: "nat \<Rightarrow> jsstring" where
  "percentEncode v = concat (map percentOctet (utf8 v))"

definition isLowSurrogate :: "u16 \<Rightarrow> bool" where
  "isLowSurrogate c = (0xDC00 \<le> c \<and> c \<le> 0xDFFF)"

definition isHighSurrogate :: "u16 \<Rightarrow> bool" where
  "isHighSurrogate c = (0xD800 \<le> c \<and> c \<le> 0xDBFF)"

fun encodeURIComponent :: "jsstring \<Rightarrow> error + jsstring" where
  "encodeURIComponent [] = Inr []"
| "encodeURIComponent (c # cs) =
     (if uriUnescaped c then
        (case encodeURIComponent cs of Inl e \<Rightarrow> Inl e | Inr r \<Rightarrow> Inr (c # r))
      else if isLowSurrogate c then Inl URIError
      else if \<not> isHighSurrogate c then
        (case encodeURIComponent cs of Inl e \<Rightarrow> Inl e
         | Inr r \<Rightarrow> Inr (percentEncode (unat c) @ r))
      else
        (case cs of
           [] \<Rightarrow> Inl URIError
         | d # ds \<Rightarrow>
             if isLowSurrogate d then
               (case encodeURIComponent ds of Inl e \<Rightarrow> Inl e
                | Inr r \<Rightarrow>
                    Inr (percentEncode
                           ((unat c - 0xD800) * 0x400 + (unat d - 0xDC00) + 0x10000) @ r))
             else Inl URIError))"

text \<open>A string is well-formed UTF-16 when every surrogate is half of a pair.\<close>

fun wellFormed :: "jsstring \<Rightarrow> bool" where
  "wellFormed [] = True"
| "wellFormed (c # cs) =
     (if isLowSurrogate c then False
      else if \<not> isHighSurrogate c then wellFormed cs
      else (case cs of [] \<Rightarrow> False | d # ds \<Rightarrow> isLowSurrogate d \<and> wellFormed ds))"

subsection \<open>Dates\<close>

text \<open>
  The catalog query is run with \<open>lean()\<close>, so \<open>updatedAt\<close> and \<open>createdAt\<close> arrive as
  \<open>Date\<close> objects. A \<open>Date\<close> holds a time value: an integral number of milliseconds
  since the epoch, or \<open>NaN\<close> (an invalid date). \<open>new Date(d)\<close> of a \<open>Date\<close> copies the
  time value through \<open>TimeClip\<close>.
\<close>

datatype jsdate = TimeValue int | InvalidDate

definition newDate :: "jsdate \<Rightarrow> jsdate" where
  "newDate d =
     (case d of
        InvalidDate \<Rightarrow> InvalidDate
      | TimeValue t \<Rightarrow> if \<bar>t\<bar> \<le> 8640000000000000 then TimeValue t else InvalidDate)"

definition msPerDay :: int where
  "msPerDay = 86400000"

definition Day :: "int \<Rightarrow> int" where
  "Day t = t div msPerDay"

definition DayFromYear :: "int \<Rightarrow> int" where
  "DayFromYear y =
     365 * (y - 1970) + (y - 1969) div 4 - (y - 1901) div 100 + (y - 1601) div 400"

definition InLeapYear :: "int \<Rightarrow> int" where
  "InLeapYear y = (if (y mod 4 = 0 \<and> y mod 100 \<noteq> 0) \<or> y mod 400 = 0 then 1 else 0)"

text \<open>\<open>YearFromTime\<close> is the largest year whose first day is not after the given day.
  It is computed from the mean length of a Gregorian year, which is off by at most one.\<close>

definition YearFromDay :: "int \<Rightarrow> int" where
  "YearFromDay d =
     (let y0 = 1970 + (400 * d) div 146097
      in if DayFromYear (y0 + 1) \<le> d then y0 + 1
         else if DayFromYear y0 \<le> d then y0
         else y0 - 1)"

definition MonthFromDay :: "int \<Rightarrow> int" where
  "MonthFromDay d =
     (let y = YearFromDay d; w = d - DayFromYear y; l = InLeapYear y
      in if w < 31 then 0
         else if w < 59 + l then 1
         else if w < 90 + l then 2
         else if w < 120 + l then 3
         else if w < 151 + l then 4
         else if w < 181 + l then 5
         else if w < 212 + l then 6
         else if w < 243 + l then 7
         else if w < 273 + l then 8
         else if w < 304 + l then 9
         else if w < 334 + l then 10
         else 11)"

definition DateFromDay :: "int \<Rightarrow> int" where
  "DateFromDay d =
     (let y = YearFromDay d; w = d - DayFromYear y; l = InLeapYear y; m = MonthFromDay d
      in if m = 0 then w + 1
         else if m = 1 then w - 30
         else if m = 2 then w - 58 - l
         else if m = 3 then w - 89 - l
         else if m = 4 then w - 119 - l
         else if m = 5 then w - 150 - l
         else if m = 6 then w - 180 - l
         else if m = 7 then w - 211 - l
         else if m = 8 then w - 242 - l
         else if m = 9 then w - 272 - l
         else if m = 10 then w - 303 - l
         else w - 333 - l)"

text \<open>Decimal digits, zero-padded to a fixed width.\<close>

definition digitChar :: "nat \<Rightarrow> u16" where
  "digitChar n = js ''0123456789'' ! (n mod 10)"

fun padDigits :: "nat \<Rightarrow> nat \<Rightarrow> jsstring" where
  "padDigits 0 n = []"
| "padDigits (Suc k) n = padDigits k (n div 10) @ [digitChar n]"

definition isoYear :: "int \<Rightarrow> jsstring" where
  "isoYear y =
     (if 0 \<le> y \<and> y \<le> 9999 then padDigits 4 (nat y)
      else (if y < 0 then js ''-'' else js ''+'') @ padDigits 6 (nat \<bar>y\<bar>))"

definition isoDate :: "int \<Rightarrow> jsstring" where
  "isoDate d =
     isoYear (YearFromDay d) @ js ''-'' @ padDigits 2 (nat (MonthFromDay d + 1))
       @ js ''-'' @ padDigits 2 (nat (DateFromDay d))"

definition isoTime :: "int \<Rightarrow> jsstring" where
  "isoTime ms =
     padDigits 2 (nat (ms div 3600000)) @ js '':'' @ padDigits 2 (nat ((ms div 60000) mod 60))
       @ js '':'' @ padDigits 2 (nat ((ms div 1000) mod 60))
       @ js ''.'' @ padDigits 3 (nat (ms mod 1000))"

text \<open>\<open>Date.prototype.toISOString\<close>: \<open>RangeError\<close> on an invalid date.\<close>

definition toISOString :: "jsdate \<Rightarrow> error + jsstring" where
  "toISOString d =
     (case d of
        InvalidDate \<Rightarrow> Inl RangeError
      | TimeValue t \<Rightarrow> Inr (isoDate (Day t) @ js ''T'' @ isoTime (t mod msPerDay) @ js ''Z''))"

text \<open>\<open>str.split(sep)\<close> for a separator of one code unit, and reading index 0 of the
  resulting array (an absent element prints as \<open>undefined\<close>).\<close>

fun split :: "u16 \<Rightarrow> jsstring \<Rightarrow> jsstring list" where
  "split sep [] = [[]]"
| "split sep (c # cs) =
     (if c = sep then [] # split sep cs
      else (case split sep cs of [] \<Rightarrow> [[c]] | x # xs \<Rightarrow> (c # x) # xs))"

definition index0 :: "jsstring list \<Rightarrow> jsstring" where
  "index0 xs = (case xs of [] \<Rightarrow> js ''undefined'' | x # _ \<Rightarrow> x)"

subsection \<open>urlEntry\<close>

text \<open>
  \<open>urlEntry({ loc, lastmod, changefreq, priority })\<close>. Both callers pass \<open>changefreq\<close>
  and \<open>priority\<close>, so the defaults of these two never apply; \<open>lastmod\<close> is \<open>null\<close>
  (\<open>None\<close>) or a \<open>Date\<close>, which is always truthy. The priority is carried as the text
  that the template literal prints for the number (\<open>1.0\<close> prints as \<open>1\<close>).
  The tag is computed before the template is filled in.
\<close>

definition lastmodTag :: "jsdate option \<Rightarrow> error + jsstring" where
  "lastmodTag lastmod =
     (case lastmod of
        None \<Rightarrow> Inr []
      | Some d \<Rightarrow>
          (case toISOString (newDate d) of
             Inl e \<Rightarrow> Inl e
           | Inr isoStr \<Rightarrow> Inr (js ''<lastmod>'' @ index0 (split 0x54 isoStr) @ js ''</lastmod>'')))"

text \<open>The template literal that \<open>urlEntry\<close> returns, as a function of the four
  texts it interpolates.\<close>

definition urlTemplate :: "jsstring \<Rightarrow> jsstring \<Rightarrow> jsstring \<Rightarrow> jsstring \<Rightarrow> jsstring" where
  "urlTemplate escapedLoc tag changefreq priority =
     js ''\<newline>  <url>\<newline>    <loc>'' @ escapedLoc @ js ''</loc>\<newline>    '' @ tag
       @ js ''\<newline>    <changefreq>'' @ changefreq
       @ js ''</changefreq>\<newline>    <priority>'' @ priority
       @ js ''</priority>\<newline>  </url>''"

definition urlEntry :: "jsstring \<Rightarrow> jsdate option \<Rightarrow> jsstring \<Rightarrow> jsstring \<Rightarrow> error + jsstring" where
  "urlEntry loc lastmod changefreq priority =
     (case lastmodTag lastmod of
        Inl e \<Rightarrow> Inl e
      | Inr tag \<Rightarrow> Inr (urlTemplate (escapeXml loc) tag changefreq priority))"

subsection \<open>buildSitemapXml\<close>

record staticPage =
  path :: jsstring
  changefreq :: jsstring
  priority :: jsstring

definition staticPages :: "staticPage list" where
  "staticPages =
     [\<lparr>path = js ''/'', changefreq = js ''daily'', priority = js ''1''\<rparr>,
      \<lparr>path = js ''/about'', changefreq = js ''monthly'', priority = js ''0.7''\<rparr>,
      \<lparr>path = js ''/fashion'', changefreq = js ''weekly'', priority = js ''0.9''\<rparr>,
      \<lparr>path = js ''/featured'', changefreq = js ''weekly'', priority = js ''0.9''\<rparr>,
      \<lparr>path = js ''/electronics'', changefreq = js ''weekly'', priority = js ''0.9''\<rparr>,
      \<lparr>path = js ''/beauty'', changefreq = js ''weekly'', priority = js ''0.85''\<rparr>,
      \<lparr>path = js ''/sports'', changefreq = js ''weekly'', priority = js ''0.85''\<rparr>,
      \<lparr>path = js ''/products'', changefreq = js ''daily'', priority = js ''1''\<rparr>,
      \<lparr>path = js ''/cart'', changefreq = js ''daily'', priority = js ''0.8''\<rparr>,
      \<lparr>path = js ''/my-orders'', changefreq = js ''daily'', priority = js ''0.7''\<rparr>,
      \<lparr>path = js ''/login'', changefreq = js ''monthly'', priority = js ''0.5''\<rparr>,
      \<lparr>path = js ''/policy'', changefreq = js ''monthly'', priority = js ''0.6''\<rparr>]"

text \<open>
  A catalog item as the query returns it: \<open>objectId\<close> is the text that
  \<open>`${prod._id}`\<close> prints; \<open>slug\<close>, \<open>updatedAt\<close> and \<open>createdAt\<close> are \<open>None\<close> when
  the field is \<open>undefined\<close> or \<open>null\<close>.
\<close>

record product =
  objectId :: jsstring
  slug :: "jsstring option"
  updatedAt :: "jsdate option"
  createdAt :: "jsdate option"

text \<open>
  The value bound to \<open>siteUrl\<close>: the documented string, or the array that
  \<open>serveSitemap\<close> passes. \<open>siteUrl.replace(/\/$/, "")\<close> removes one trailing slash of a
  string; an array has no \<open>replace\<close> method, so the call raises \<open>TypeError\<close>.
\<close>

datatype jsval = JString jsstring | JArray "jsstring list"

definition stripTrailingSlash :: "jsstring \<Rightarrow> jsstring" where
  "stripTrailingSlash s = (if s \<noteq> [] \<and> last s = 0x2F then butlast s else s)"

definition replaceTrailingSlash :: "jsval \<Rightarrow> error + jsstring" where
  "replaceTrailingSlash siteUrl =
     (case siteUrl of
        JString s \<Rightarrow> Inr (stripTrailingSlash s)
      | JArray xs \<Rightarrow> Inl TypeError)"

text \<open>A loop that pushes one entry per element and stops at the first exception.\<close>

fun forEach :: "('a \<Rightarrow> error + 'b) \<Rightarrow> 'a list \<Rightarrow> error + 'b list" where
  "forEach f [] = Inr []"
| "forEach f (x # xs) =
     (case f x of
        Inl e \<Rightarrow> Inl e
      | Inr y \<Rightarrow> (case forEach f xs of Inl e \<Rightarrow> Inl e | Inr ys \<Rightarrow> Inr (y # ys)))"

definition staticItem :: "jsval \<Rightarrow> staticPage \<Rightarrow> error + jsstring" where
  "staticItem siteUrl p =
     (case replaceTrailingSlash siteUrl of
        Inl e \<Rightarrow> Inl e
      | Inr base \<Rightarrow> urlEntry (base @ path p) None (changefreq p) (priority p))"

definition productIdentifier :: "product \<Rightarrow> error + jsstring" where
  "productIdentifier item =
     (if truthy (slug item) then
        (case encodeURIComponent (case slug item of None \<Rightarrow> [] | Some s \<Rightarrow> s) of
           Inl e \<Rightarrow> Inl e
         | Inr enc \<Rightarrow> Inr (js ''product/'' @ enc))
      else Inr (js ''product/'' @ objectId item))"

definition lastmodOf :: "product \<Rightarrow> jsdate option" where
  "lastmodOf item = (case updatedAt item of Some d \<Rightarrow> Some d | None \<Rightarrow> createdAt item)"

definition productItem :: "jsval \<Rightarrow> product \<Rightarrow> error + jsstring" where
  "productItem siteUrl item =
     (case productIdentifier item of
        Inl e \<Rightarrow> Inl e
      | Inr ident \<Rightarrow>
          (case replaceTrailingSlash siteUrl of
             Inl e \<Rightarrow> Inl e
           | Inr base \<Rightarrow>
               urlEntry (base @ js ''/'' @ ident) (lastmodOf item) (js ''weekly'') (js ''0.8'')))"

text \<open>The text of the document template before the items.\<close>

definition xmlHeader :: jsstring where
  "xmlHeader =
     js ''<?xml version=\"1.0\" encoding=\"UTF-8\"?>\<newline><urlset\<newline>    xmlns=\"http://www.sitemaps.org/schemas/sitemap/0.9\">\<newline>''"

text \<open>The part of \<open>buildSitemapXml\<close> after the catalog query: the two loops and the
  document template.\<close>

definition composeXml :: "jsval \<Rightarrow> product list \<Rightarrow> error + jsstring" where
  "composeXml siteUrl products =
     (case forEach (staticItem siteUrl) staticPages of
        Inl e \<Rightarrow> Inl e
      | Inr items1 \<Rightarrow>
          (case forEach (productItem siteUrl) products of
             Inl e \<Rightarrow> Inl e
           | Inr items2 \<Rightarrow>
               Inr (xmlHeader @ join (js ''\<newline>'') (items1 @ items2)
                    @ js ''\<newline></urlset>'')))"

subsection \<open>The state a call can touch\<close>

text \<open>
  \<open>cachedXml\<close> and \<open>cacheTimestamp\<close> are the two module variables. The other fields
  record the effects of a call: how often the catalog was queried, how often the clock
  (\<open>Date.now()\<close>) was read, and what was written with \<open>console.error\<close>. The answer of
  the catalog and the readings of the clock are inputs: \<open>catalog\<close> is the outcome of
  \<open>Product.find({}, "slug updatedAt createdAt").lean().exec()\<close>, and \<open>clock k\<close> is what
  the \<open>k\<close>-th reading of the clock returns.
\<close>

record world =
  cachedXml :: "jsstring option"
  cacheTimestamp :: int
  catalogCalls :: nat
  clockReads :: nat
  logged :: "error list"

definition initialWorld :: world where
  "initialWorld =
     \<lparr>cachedXml = None, cacheTimestamp = 0, catalogCalls = 0, clockReads = 0, logged = []\<rparr>"

definition buildSitemapXml ::
    "(error + product list) \<Rightarrow> jsval \<Rightarrow> world \<Rightarrow> (error + jsstring) \<times> world" where
  "buildSitemapXml catalog siteUrl w =
     (let w1 = w\<lparr>catalogCalls := catalogCalls w + 1\<rparr>
      in case catalog of
           Inl e \<Rightarrow> (Inl e, w1)
         | Inr products \<Rightarrow> (composeXml siteUrl products, w1))"

subsection \<open>Number\<close>

text \<open>
  A Number is \<open>NaN\<close>, an infinity, or a finite double, given by its exact value (the
  sign of zero is not kept). \<open>Number(str)\<close> follows \<open>StringToNumber\<close>: white space is
  trimmed, the empty string is 0, a decimal literal or a binary, octal or hexadecimal
  integer literal is rounded to the nearest double, anything else is \<open>NaN\<close>.
\<close>

datatype jsnum = NaN | Fin rat | PosInf | NegInf

definition isWhiteSpace :: "u16 \<Rightarrow> bool" where
  "isWhiteSpace c =
     (c \<in> {0x9, 0xA, 0xB, 0xC, 0xD, 0x20, 0xA0, 0x1680, 0x2028, 0x2029, 0x202F, 0x205F,
            0x3000, 0xFEFF}
      \<or> (0x2000 \<le> c \<and> c \<le> 0x200A))"

definition trimString :: "jsstring \<Rightarrow> jsstring" where
  "trimString s = rev (dropWhile isWhiteSpace (rev (dropWhile isWhiteSpace s)))"

definition digitValue :: "u16 \<Rightarrow> int option" where
  "digitValue c =
     (if 0x30 \<le> c \<and> c \<le> 0x39 then Some (uint c - 0x30)
      else if 0x61 \<le> c \<and> c \<le> 0x66 then Some (uint c - 0x57)
      else if 0x41 \<le> c \<and> c \<le> 0x46 then Some (uint c - 0x37)
      else None)"

definition isDigitOf :: "int \<Rightarrow> u16 \<Rightarrow> bool" where
  "isDigitOf base c = (case digitValue c of None \<Rightarrow> False | Some v \<Rightarrow> v < base)"

definition digitsValue :: "int \<Rightarrow> jsstring \<Rightarrow> int" where
  "digitsValue base ds =
     foldl (\<lambda>acc c. acc * base + (case digitValue c of None \<Rightarrow> 0 | Some v \<Rightarrow> v)) 0 ds"

definition pow2 :: "int \<Rightarrow> rat" where
  "pow2 k = (if 0 \<le> k then 2 ^ nat k else 1 / 2 ^ nat (- k))"

definition pow10 :: "int \<Rightarrow> rat" where
  "pow10 k = (if 0 \<le> k then 10 ^ nat k else 1 / 10 ^ nat (- k))"

text \<open>The exponent \<open>e\<close> with \<open>2 ^ e \<le> a < 2 ^ (e + 1)\<close>, for positive \<open>a\<close>.\<close>

definition binaryExponent :: "rat \<Rightarrow> int" where
  "binaryExponent a =
     (if 1 \<le> a then bitlen \<lfloor>a\<rfloor> - 1 else - bitlen (\<lceil>1 / a\<rceil> - 1))"

definition roundHalfEven :: "rat \<Rightarrow> int" where
  "roundHalfEven x =
     (let f = \<lfloor>x\<rfloor>; r = x - of_int f
      in if r < 1 / 2 then f else if 1 / 2 < r then f + 1 else if even f then f else f + 1)"

text \<open>Rounding to the nearest double, ties to even, with gradual underflow and overflow
  to infinity.\<close>

definition roundToDouble :: "rat \<Rightarrow> jsnum" where
  "roundToDouble q =
     (if q = 0 then Fin 0
      else
        let a = \<bar>q\<bar>;
            k = max (binaryExponent a) (- 1022) - 52;
            v = of_int (roundHalfEven (a / pow2 k)) * pow2 k
        in if pow2 1024 \<le> v then (if q < 0 then NegInf else PosInf)
           else Fin (if q < 0 then - v else v))"

definition nonDecimalLiteral :: "jsstring \<Rightarrow> int option" where
  "nonDecimalLiteral s =
     (case s of
        z # x # ds \<Rightarrow>
          (let base = (if x = 0x78 \<or> x = 0x58 then 16
                       else if x = 0x6F \<or> x = 0x4F then 8
                       else if x = 0x62 \<or> x = 0x42 then 2 else (0::int))
           in if z = 0x30 \<and> base \<noteq> 0 \<and> ds \<noteq> [] \<and> list_all (isDigitOf base) ds
              then Some (digitsValue base ds) else None)
      | _ \<Rightarrow> None)"

text \<open>The exponent part of a decimal literal: absent, or \<open>e\<close> or \<open>E\<close>, an optional sign
  and at least one digit.\<close>

definition exponentPart :: "jsstring \<Rightarrow> int option" where
  "exponentPart s =
     (case s of
        [] \<Rightarrow> Some 0
      | c # r \<Rightarrow>
          if c = 0x65 \<or> c = 0x45 then
            (let neg = (r \<noteq> [] \<and> hd r = 0x2D);
                 ds = (if r \<noteq> [] \<and> (hd r = 0x2D \<or> hd r = 0x2B) then tl r else r)
             in if ds \<noteq> [] \<and> list_all (isDigitOf 10) ds
                then Some (if neg then - digitsValue 10 ds else digitsValue 10 ds)
                else None)
          else None)"

definition unsignedDecimalLiteral :: "jsstring \<Rightarrow> rat option" where
  "unsignedDecimalLiteral s =
     (let ip = takeWhile (isDigitOf 10) s;
          r1 = dropWhile (isDigitOf 10) s;
          dot = (r1 \<noteq> [] \<and> hd r1 = 0x2E);
          fp = (if dot then takeWhile (isDigitOf 10) (tl r1) else []);
          r2 = (if dot then dropWhile (isDigitOf 10) (tl r1) else r1)
      in if ip = [] \<and> fp = [] then None
         else (case exponentPart r2 of
                 None \<Rightarrow> None
               | Some e \<Rightarrow>
                   Some ((of_int (digitsValue 10 ip)
                          + of_int (digitsValue 10 fp) * pow10 (- int (length fp))) * pow10 e)))"

definition Number :: "jsstring \<Rightarrow> jsnum" where
  "Number str =
     (let s = trimString str
      in if s = [] then Fin 0
         else (case nonDecimalLiteral s of
                 Some n \<Rightarrow> roundToDouble (of_int n)
               | None \<Rightarrow>
                   (let neg = (hd s = 0x2D);
                        u = (if hd s = 0x2D \<or> hd s = 0x2B then tl s else s)
                    in if u = js ''Infinity'' then (if neg then NegInf else PosInf)
                       else (case unsignedDecimalLiteral u of
                               None \<Rightarrow> NaN
                             | Some q \<Rightarrow> roundToDouble (if neg then - q else q)))))"

text \<open>The difference of two clock readings. A reading is a time value, an integral
  Number; the difference is the exact one rounded to the nearest double.\<close>

definition jsSubtract :: "int \<Rightarrow> int \<Rightarrow> jsnum" where
  "jsSubtract a b = roundToDouble (of_int a - of_int b)"

text \<open>\<open>a < b\<close> on Numbers: every comparison with \<open>NaN\<close> is false.\<close>

definition jsLess :: "jsnum \<Rightarrow> jsnum \<Rightarrow> bool" where
  "jsLess a b =
     (case a of
        NaN \<Rightarrow> False
      | Fin x \<Rightarrow> (case b of NaN \<Rightarrow> False | Fin y \<Rightarrow> x < y | PosInf \<Rightarrow> True | NegInf \<Rightarrow> False)
      | PosInf \<Rightarrow> False
      | NegInf \<Rightarrow> (case b of NaN \<Rightarrow> False | Fin y \<Rightarrow> True | PosInf \<Rightarrow> True | NegInf \<Rightarrow> False))"

subsection \<open>serveSitemap\<close>

text \<open>The three settings that \<open>serveSitemap\<close> reads from \<open>process.env\<close>; \<open>None\<close> is an
  unset variable.\<close>

record env =
  SITE_URL :: "jsstring option"
  CLIENT_URL :: "jsstring option"
  SITEMAP_CACHE_TTL_MS :: "jsstring option"

record response =
  status :: nat
  contentType :: "jsstring option"
  body :: jsstring

text \<open>
  \<open>SITE_URL\<close> is declared with \<open>const\<close>, and the module is an ES module (strict mode):
  an assignment to it evaluates the right-hand side and then raises \<open>TypeError\<close>.
\<close>

definition assignToConst :: "'a \<Rightarrow> error + 'a" where
  "assignToConst v = Inl TypeError"

definition envSplit :: "jsstring option \<Rightarrow> jsstring list" where
  "envSplit v = (case v of None \<Rightarrow> [] | Some s \<Rightarrow> split 0x2C s)"

definition siteUrlOf :: "env \<Rightarrow> error + jsstring list" where
  "siteUrlOf e =
     (if truthy (SITE_URL e) then assignToConst (envSplit (SITE_URL e))
      else if truthy (CLIENT_URL e) then assignToConst (envSplit (CLIENT_URL e))
      else Inr [js ''http://localhost:5173''])"

definition cacheTtlOf :: "env \<Rightarrow> jsnum" where
  "cacheTtlOf e =
     (if truthy (SITEMAP_CACHE_TTL_MS e)
      then Number (case SITEMAP_CACHE_TTL_MS e of None \<Rightarrow> [] | Some s \<Rightarrow> s)
      else Fin (60 * 60 * 1000))"

definition xmlResponse :: "jsstring \<Rightarrow> response" where
  "xmlResponse doc = \<lparr>status = 200, contentType = Some (js ''application/xml''), body = doc\<rparr>"

text \<open>The test \<open>cachedXml && now - cacheTimestamp < CACHE_TTL_MS\<close>.\<close>

definition cacheIsFresh :: "jsnum \<Rightarrow> int \<Rightarrow> world \<Rightarrow> bool" where
  "cacheIsFresh ttl now w =
     (truthy (cachedXml w) \<and> jsLess (jsSubtract now (cacheTimestamp w)) ttl)"

text \<open>The body of the \<open>try\<close> block: the response sent, or the exception raised.\<close>

definition serveSitemapTry ::
    "env \<Rightarrow> (nat \<Rightarrow> int) \<Rightarrow> (error + product list) \<Rightarrow> world \<Rightarrow> (error + response) \<times> world" where
  "serveSitemapTry e clock catalog w =
     (case siteUrlOf e of
        Inl err \<Rightarrow> (Inl err, w)
      | Inr siteUrl \<Rightarrow>
          (let ttl = cacheTtlOf e;
               now = clock (clockReads w);
               w1 = w\<lparr>clockReads := clockReads w + 1\<rparr>
           in if cacheIsFresh ttl now w1
              then (Inr (xmlResponse (case cachedXml w1 of None \<Rightarrow> [] | Some doc \<Rightarrow> doc)), w1)
              else (case buildSitemapXml catalog (JArray siteUrl) w1 of
                      (Inl err, w2) \<Rightarrow> (Inl err, w2)
                    | (Inr xml, w2) \<Rightarrow>
                        (Inr (xmlResponse xml),
                         w2\<lparr>cachedXml := Some xml,
                            cacheTimestamp := clock (clockReads w2),
                            clockReads := clockReads w2 + 1\<rparr>))))"

definition serveSitemap ::
    "env \<Rightarrow> (nat \<Rightarrow> int) \<Rightarrow> (error + product list) \<Rightarrow> world \<Rightarrow> response \<times> world" where
  "serveSitemap e clock catalog w =
     (case serveSitemapTry e clock catalog w of
        (Inr res, w') \<Rightarrow> (res, w')
      | (Inl err, w') \<Rightarrow>
          (\<lparr>status = 500, contentType = None, body = js ''Server error generating sitemap''\<rparr>,
           w'\<lparr>logged := logged w' @ [err]\<rparr>))"

subsection \<open>Notions used in the statements\<close>

text \<open>The response of the \<open>catch\<close> block.\<close>

definition serverError :: response where
  "serverError =
     \<lparr>status = 500, contentType = None, body = js ''Server error generating sitemap''\<rparr>"

text \<open>The number of places of a string at which a pattern occurs.\<close>

fun occurrences :: "jsstring \<Rightarrow> jsstring \<Rightarrow> nat" where
  "occurrences pat [] = 0"
| "occurrences pat (c # cs) = (if prefix pat (c # cs) then 1 else 0) + occurrences pat cs"

text \<open>Every \<open>&\<close> of a text is the start of one of the five entities.\<close>

fun ampersandsEscaped :: "jsstring \<Rightarrow> bool" where
  "ampersandsEscaped [] = True"
| "ampersandsEscaped (c # cs) =
     ((if c = 0x26 then list_ex (\<lambda>e. prefix e (c # cs)) entities else True)
      \<and> ampersandsEscaped cs)"

text \<open>The items that get a \<open>lastmod\<close> element.\<close>

definition datedItems :: "product list \<Rightarrow> product list" where
  "datedItems products = filter (\<lambda>item. lastmodOf item \<noteq> None) products"

text \<open>A date is valid when it has a time value within the range of \<open>TimeClip\<close>. An item
  can be rendered when its slug, if it has one, is well-formed UTF-16, and its date of
  last modification, if it has one, is valid.\<close>

fun validDate :: "jsdate \<Rightarrow> bool" where
  "validDate InvalidDate = False"
| "validDate (TimeValue t) = (\<bar>t\<bar> \<le> 8640000000000000)"

definition renderable :: "product \<Rightarrow> bool" where
  "renderable item =
     ((case slug item of None \<Rightarrow> True | Some s \<Rightarrow> wellFormed s)
      \<and> (case lastmodOf item of None \<Rightarrow> True | Some d \<Rightarrow> validDate d))"

subsection \<open>The document as the specification describes it\<close>

text \<open>
  What the specification says an entry is, written without exceptions: the path of an
  item is its percent-encoded slug when it has a (non-empty) slug and its identifier
  otherwise; the date of last modification is that of the update, else that of the
  creation, else there is no \<open>lastmod\<close> element; the date is the calendar day of the
  time value.
\<close>

definition percentEncoded :: "jsstring \<Rightarrow> jsstring" where
  "percentEncoded s = (case encodeURIComponent s of Inl e \<Rightarrow> [] | Inr r \<Rightarrow> r)"

definition pathSegment :: "product \<Rightarrow> jsstring" where
  "pathSegment item =
     (case slug item of
        None \<Rightarrow> objectId item
      | Some s \<Rightarrow> if s = [] then objectId item else percentEncoded s)"

fun lastmodText :: "jsdate \<Rightarrow> jsstring" where
  "lastmodText (TimeValue t) = js ''<lastmod>'' @ isoDate (Day t) @ js ''</lastmod>''"
| "lastmodText InvalidDate = []"

definition lastmodElement :: "product \<Rightarrow> jsstring" where
  "lastmodElement item =
     (case updatedAt item of
        Some d \<Rightarrow> lastmodText d
      | None \<Rightarrow> (case createdAt item of Some d \<Rightarrow> lastmodText d | None \<Rightarrow> []))"

definition productEntry :: "jsstring \<Rightarrow> product \<Rightarrow> jsstring" where
  "productEntry base item =
     urlTemplate (escapeXml (stripTrailingSlash base @ js ''/product/'' @ pathSegment item))
       (lastmodElement item) (js ''weekly'') (js ''0.8'')"

definition staticEntry :: "jsstring \<Rightarrow> staticPage \<Rightarrow> jsstring" where
  "staticEntry base p =
     urlTemplate (escapeXml (stripTrailingSlash base @ path p)) [] (changefreq p) (priority p)"

definition document :: "jsstring \<Rightarrow> product list \<Rightarrow> jsstring" where
  "document base products =
     xmlHeader
       @ join (js ''\<newline>'') (map (staticEntry base) staticPages @ map (productEntry base) products)
       @ js ''\<newline></urlset>''"

subsection \<open>What the texts of an entry mean\<close>

text \<open>
  Readings of the texts an entry is made of, written from what the words mean and
  not from the way the code produces them. A text is the percent-encoding of a string
  when decoding it, strictly, gives the string: a percent sign is followed by two
  upper-case hexadecimal digits, every other code unit is unreserved, the octets are
  the shortest UTF-8 encoding of a code point that is not a surrogate, and an
  unreserved character is never escaped.
\<close>

definition unreserved :: "u16 \<Rightarrow> bool" where
  "unreserved c =
     ((0x41 \<le> c \<and> c \<le> 0x5A) \<or> (0x61 \<le> c \<and> c \<le> 0x7A) \<or> (0x30 \<le> c \<and> c \<le> 0x39)
      \<or> c \<in> {0x2D, 0x5F, 0x2E, 0x21, 0x7E, 0x2A, 0x27, 0x28, 0x29})"

definition hexValue :: "u16 \<Rightarrow> nat option" where
  "hexValue c =
     (if 0x30 \<le> c \<and> c \<le> 0x39 then Some (unat c - 0x30)
      else if 0x41 \<le> c \<and> c \<le> 0x46 then Some (unat c - 0x37)
      else None)"

datatype token = Plain u16 | Octet nat

fun tokens :: "jsstring \<Rightarrow> token list option" where
  "tokens [] = Some []"
| "tokens (c # cs) =
     (if c = 0x25 then
        (case cs of
           h # l # r \<Rightarrow>
             (case hexValue h of
                None \<Rightarrow> None
              | Some a \<Rightarrow>
                  (case hexValue l of
                     None \<Rightarrow> None
                   | Some b \<Rightarrow>
                       (case tokens r of None \<Rightarrow> None | Some ts \<Rightarrow> Some (Octet (16 * a + b) # ts))))
         | _ \<Rightarrow> None)
      else if unreserved c then
        (case tokens cs of None \<Rightarrow> None | Some ts \<Rightarrow> Some (Plain c # ts))
      else None)"

fun continuation :: "token \<Rightarrow> nat option" where
  "continuation (Plain c) = None"
| "continuation (Octet b) = (if 0x80 \<le> b \<and> b < 0xC0 then Some (b - 0x80) else None)"

text \<open>The code points of a list of tokens: \<open>lead\<close> reads the octets that follow the
  first octet of a sequence.\<close>

fun continuations :: "nat \<Rightarrow> token list \<Rightarrow> (nat list \<times> token list) option" where
  "continuations 0 ts = Some ([], ts)"
| "continuations (Suc n) [] = None"
| "continuations (Suc n) (t # ts) =
     (case continuation t of
        None \<Rightarrow> None
      | Some x \<Rightarrow>
          (case continuations n ts of None \<Rightarrow> None | Some (xs, r) \<Rightarrow> Some (x # xs, r)))"

definition codePointOf :: "nat \<Rightarrow> nat list \<Rightarrow> nat option" where
  "codePointOf b xs =
     (let v = foldl (\<lambda>acc x. acc * 0x40 + x)
                (if b < 0x80 then b else if b < 0xE0 then b - 0xC0
                 else if b < 0xF0 then b - 0xE0 else b - 0xF0) xs
      in if b < 0x80 then (if unreserved (of_nat v) then None else Some v)
         else if b < 0xE0 then (if 0x80 \<le> v then Some v else None)
         else if b < 0xF0 then
           (if 0x800 \<le> v \<and> \<not> (0xD800 \<le> v \<and> v < 0xE000) then Some v else None)
         else (if 0x10000 \<le> v \<and> v < 0x110000 then Some v else None))"

definition sequenceLength :: "nat \<Rightarrow> nat option" where
  "sequenceLength b =
     (if b < 0x80 then Some 0
      else if b < 0xC0 then None
      else if b < 0xE0 then Some 1
      else if b < 0xF0 then Some 2
      else if b < 0xF8 then Some 3
      else None)"

function codePoints :: "token list \<Rightarrow> nat list option" where
  "codePoints [] = Some []"
| "codePoints (Plain c # ts) =
     (case codePoints ts of None \<Rightarrow> None | Some vs \<Rightarrow> Some (unat c # vs))"
| "codePoints (Octet b # ts) =
     (case sequenceLength b of
        None \<Rightarrow> None
      | Some n \<Rightarrow>
          (case continuations n ts of
             None \<Rightarrow> None
           | Some (xs, r) \<Rightarrow>
               (case codePointOf b xs of
                  None \<Rightarrow> None
                | Some v \<Rightarrow>
                    (case codePoints r of None \<Rightarrow> None | Some vs \<Rightarrow> Some (v # vs)))))"
  by pat_completeness auto

termination codePoints
proof -
  have shorter: "continuations n ts = Some (xs, r) \<Longrightarrow> length r \<le> length ts"
    for n ts xs r
    by (induction n ts arbitrary: xs r rule: continuations.induct)
       (force split: option.splits)+
  show ?thesis
    by (relation "measure length") (auto dest: shorter)
qed

declare codePoints.simps [simp del]

definition utf16 :: "nat \<Rightarrow> jsstring" where
  "utf16 v =
     (if v < 0x10000 then [of_nat v]
      else [of_nat (0xD800 + (v - 0x10000) div 0x400), of_nat (0xDC00 + (v - 0x10000) mod 0x400)])"

definition percentDecode :: "jsstring \<Rightarrow> jsstring option" where
  "percentDecode s =
     (case tokens s of
        None \<Rightarrow> None
      | Some ts \<Rightarrow>
          (case codePoints ts of None \<Rightarrow> None | Some vs \<Rightarrow> Some (concat (map utf16 vs))))"

text \<open>
  The Gregorian calendar, counted from the first of January 1970 (day 0): a year is a
  leap year when it is divisible by 4 and not by 100, or divisible by 400; the day
  number of a date is the number of days in the years before its year, plus the days
  in the months before its month, plus the days before it in its month.
\<close>

definition leapYear :: "int \<Rightarrow> bool" where
  "leapYear y = (y mod 4 = 0 \<and> (y mod 100 \<noteq> 0 \<or> y mod 400 = 0))"

definition daysInYear :: "int \<Rightarrow> int" where
  "daysInYear y = (if leapYear y then 366 else 365)"

function daysBeforeYear :: "int \<Rightarrow> int" where
  "daysBeforeYear y =
     (if y = 1970 then 0
      else if 1970 < y then daysBeforeYear (y - 1) + daysInYear (y - 1)
      else daysBeforeYear (y + 1) - daysInYear y)"
  by pat_completeness auto
termination
  by (relation "measure (\<lambda>y. nat \<bar>y - 1970\<bar>)") auto

declare daysBeforeYear.simps [simp del]

definition daysInMonth :: "int \<Rightarrow> int \<Rightarrow> int" where
  "daysInMonth y m =
     (if m = 2 then (if leapYear y then 29 else 28)
      else if m = 4 \<or> m = 6 \<or> m = 9 \<or> m = 11 then 30
      else 31)"

definition civilDay :: "int \<Rightarrow> int \<Rightarrow> int \<Rightarrow> int" where
  "civilDay y m d = daysBeforeYear y + sum_list (map (daysInMonth y) [1..m - 1]) + (d - 1)"

definition validCivil :: "int \<Rightarrow> int \<Rightarrow> int \<Rightarrow> bool" where
  "validCivil y m d = (1 \<le> m \<and> m \<le> 12 \<and> 1 \<le> d \<and> d \<le> daysInMonth y m)"

text \<open>
  Reading a date-only ISO 8601 text: \<open>YYYY-MM-DD\<close> for the years 0 to 9999, and the
  expanded form, a sign and six digits for the year, for the others. Nothing may
  follow the day: a text with a time of day is not read.
\<close>

fun decimalFrom :: "nat \<Rightarrow> jsstring \<Rightarrow> nat option" where
  "decimalFrom acc [] = Some acc"
| "decimalFrom acc (c # cs) =
     (if 0x30 \<le> c \<and> c \<le> 0x39 then decimalFrom (10 * acc + (unat c - 0x30)) cs else None)"

definition decimalNumber :: "jsstring \<Rightarrow> nat option" where
  "decimalNumber s = (if s = [] then None else decimalFrom 0 s)"

definition parseIsoDay :: "jsstring \<Rightarrow> (int \<times> int \<times> int) option" where
  "parseIsoDay s =
     (let signed = (s \<noteq> [] \<and> (hd s = 0x2B \<or> hd s = 0x2D));
          negative = (s \<noteq> [] \<and> hd s = 0x2D);
          body = (if signed then tl s else s);
          n = (if signed then 6 else 4)
      in if length body = n + 6 \<and> body ! n = 0x2D \<and> body ! (n + 3) = 0x2D then
           (case decimalNumber (take n body) of
              None \<Rightarrow> None
            | Some y \<Rightarrow>
                (case decimalNumber (take 2 (drop (n + 1) body)) of
                   None \<Rightarrow> None
                 | Some m \<Rightarrow>
                     (case decimalNumber (drop (n + 4) body) of
                        None \<Rightarrow> None
                      | Some d \<Rightarrow>
                          if signed \<and> \<not> negative \<and> y \<le> 9999 then None
                          else if negative \<and> y = 0 then None
                          else Some (if negative then - int y else int y, int m, int d))))
         else None)"

text \<open>
  What the claim asks of the two texts of an item's entry. The path segment is the
  identifier when the item has no slug (or an empty one), and otherwise a text that
  percent-decodes to the slug. The \<open>lastmod\<close> text belongs to the update date if there
  is one, else to the creation date, else it is empty; for a date with time value
  \<open>t\<close> it is a \<open>lastmod\<close> element whose content reads as the calendar date of the day
  \<open>t div 86400000\<close>.
\<close>

definition isPathOf :: "product \<Rightarrow> jsstring \<Rightarrow> bool" where
  "isPathOf item seg =
     (case slug item of
        None \<Rightarrow> seg = objectId item
      | Some s \<Rightarrow> if s = [] then seg = objectId item else percentDecode seg = Some s)"

definition isDateElement :: "int \<Rightarrow> jsstring \<Rightarrow> bool" where
  "isDateElement t tag =
     (prefix (js ''<lastmod>'') tag \<and> suffix (js ''</lastmod>'') tag \<and> 19 \<le> length tag
      \<and> (case parseIsoDay (take (length tag - 19) (drop 9 tag)) of
            None \<Rightarrow> False
          | Some (y, m, d) \<Rightarrow> validCivil y m d \<and> civilDay y m d = t div 86400000))"

fun isElementOf :: "jsdate \<Rightarrow> jsstring \<Rightarrow> bool" where
  "isElementOf (TimeValue t) tag = isDateElement t tag"
| "isElementOf InvalidDate tag = False"

definition isLastmodOf :: "product \<Rightarrow> jsstring \<Rightarrow> bool" where
  "isLastmodOf item tag =
     (case updatedAt item of
        Some d \<Rightarrow> isElementOf d tag
      | None \<Rightarrow> (case createdAt item of Some d \<Rightarrow> isElementOf d tag | None \<Rightarrow> tag = []))"

definition withoutTrailingSlash :: "jsstring \<Rightarrow> jsstring" where
  "withoutTrailingSlash base =
     (if suffix (js ''/'') base then take (length base - 1) base else base)"

section \<open>Properties\<close>

subsection \<open>Escaping\<close>

lemma replaceAll_from_single:
  "replaceAll_from [c] rep s = concat (map (\<lambda>x. if x = c then rep else [x]) s)"
proof (induction s)
  case Nil
  show ?case by (subst replaceAll_from.simps) simp
next
  case (Cons x xs)
  show ?case using Cons.IH by (subst replaceAll_from.simps) auto
qed

lemma replaceAll_single:
  "replaceAll [c] rep s = concat (map (\<lambda>x. if x = c then rep else [x]) s)"
  by (simp add: replaceAll_def replaceAll_from_single)

lemma js_singles:
  "js ''&'' = [0x26]" "js ''<'' = [0x3C]" "js ''>'' = [0x3E]"
  "js ''\"'' = [0x22]" "js [CHR 0x27] = [0x27]"
  by (simp_all add: js_def)

lemma escapeXml_append: "escapeXml (a @ b) = escapeXml a @ escapeXml b"
  by (simp add: escapeXml_def js_singles replaceAll_single)

lemma escapeXml_one: "escapeXml [c] = xmlEntity c"
  by (simp add: escapeXml_def js_singles replaceAll_single xmlEntity_def js_def)

lemma escapeXml_Nil: "escapeXml [] = []"
  by (simp add: escapeXml_def js_singles replaceAll_single)

lemma escapeXml_char_wise: "escapeXml s = concat (map xmlEntity s)"
proof (induction s)
  case Nil
  show ?case by (simp add: escapeXml_Nil)
next
  case (Cons x xs)
  have "escapeXml (x # xs) = escapeXml ([x] @ xs)" by simp
  also have "\<dots> = xmlEntity x @ escapeXml xs"
    by (simp only: escapeXml_append escapeXml_one)
  finally show ?case by (simp add: Cons.IH)
qed

lemma xmlText_xmlEntity_append: "xmlText r \<Longrightarrow> xmlText (xmlEntity c @ r)"
  by (simp add: xmlEntity_def js_def entities_def)

lemma xmlText_escapeXml: "xmlText (escapeXml s)"
  unfolding escapeXml_char_wise
  by (induction s) (simp_all add: xmlText_xmlEntity_append)

lemma xmlText_no_reserved:
  "xmlText s \<Longrightarrow> 0x3C \<notin> set s \<and> 0x3E \<notin> set s \<and> 0x22 \<notin> set s \<and> 0x27 \<notin> set s"
  by (induction s) (auto split: if_splits)

subsection \<open>Dates and the lastmod element\<close>

lemma digitChar_digit: "digitChar n \<in> set (js ''0123456789'')"
proof -
  have "n mod 10 < length (js ''0123456789'')" by (simp add: js_def)
  then show ?thesis unfolding digitChar_def by (rule nth_mem)
qed

lemma padDigits_digits: "set (padDigits k n) \<subseteq> set (js ''0123456789'')"
  by (induction k arbitrary: n) (simp_all add: digitChar_digit)

lemma length_padDigits: "length (padDigits k n) = k"
  by (induction k arbitrary: n) simp_all

lemma isoYear_chars: "set (isoYear y) \<subseteq> set (js ''0123456789-+'')"
proof -
  have "set (js ''0123456789'') \<subseteq> set (js ''0123456789-+'')" by (simp add: js_def)
  then have "set (padDigits k n) \<subseteq> set (js ''0123456789-+'')" for k n
    using padDigits_digits by blast
  then show ?thesis by (simp add: isoYear_def js_def)
qed

lemma isoDate_chars: "set (isoDate d) \<subseteq> set (js ''0123456789-+'')"
proof -
  have "set (js ''0123456789'') \<subseteq> set (js ''0123456789-+'')" by (simp add: js_def)
  then have "set (padDigits k n) \<subseteq> set (js ''0123456789-+'')" for k n
    using padDigits_digits by blast
  moreover have "set (js ''-'') \<subseteq> set (js ''0123456789-+'')" by (simp add: js_def)
  ultimately show ?thesis using isoYear_chars by (simp add: isoDate_def)
qed

lemma isoDate_plain:
  "c \<in> set (isoDate d) \<Longrightarrow>
     c \<noteq> 0x54 \<and> c \<noteq> 0x3A \<and> c \<noteq> 0x3C \<and> c \<noteq> 0x3E \<and> c \<noteq> 0x22 \<and> c \<noteq> 0x27 \<and> c \<noteq> 0x26"
proof -
  assume "c \<in> set (isoDate d)"
  then have "c \<in> set (js ''0123456789-+'')" using isoDate_chars by blast
  then show ?thesis by (auto simp: js_def)
qed

lemma split_nonempty: "split c s \<noteq> []"
  by (induction s) (auto split: list.splits)

lemma index0_split: "c \<notin> set a \<Longrightarrow> index0 (split c (a @ c # b)) = a"
proof (induction a)
  case Nil
  show ?case by (simp add: index0_def)
next
  case (Cons x xs)
  then show ?case using split_nonempty [of c "xs @ c # b"]
    by (auto simp: index0_def split: list.splits)
qed

lemma lastmodTag_None: "lastmodTag None = Inr []"
  by (simp add: lastmodTag_def)

lemma lastmodTag_valid:
  assumes "validDate d"
  shows "lastmodTag (Some d) = Inr (lastmodText d)"
proof (cases d)
  case InvalidDate
  with assms show ?thesis by simp
next
  case (TimeValue t)
  have "0x54 \<notin> set (isoDate (Day t))" using isoDate_plain by blast
  then have "index0 (split 0x54 (isoDate (Day t) @ 0x54 # (isoTime (t mod msPerDay) @ js ''Z'')))
               = isoDate (Day t)"
    by (rule index0_split)
  moreover have "js ''T'' = [0x54]" by (simp add: js_def)
  ultimately show ?thesis using assms TimeValue
    by (simp add: lastmodTag_def toISOString_def newDate_def)
qed

lemma lastmodTag_invalid: "\<not> validDate d \<Longrightarrow> lastmodTag (Some d) = Inl RangeError"
  by (cases d) (simp_all add: lastmodTag_def toISOString_def newDate_def)

lemma length_isoDate:
  "0 \<le> YearFromDay d \<Longrightarrow> YearFromDay d \<le> 9999 \<Longrightarrow> length (isoDate d) = 10"
  by (simp add: isoDate_def isoYear_def length_padDigits js_def)

subsection \<open>The calendar\<close>

text \<open>The year computed for a day is ECMAScript's \<open>YearFromTime\<close>: the largest year
  that does not start after the day. So the day within the year is in range, and the
  month and the day of the month are those of the calendar.\<close>

lemma div_succ:
  fixes x k :: int
  assumes "1 < k"
  shows "(x + 1) div k = x div k + (if x mod k = k - 1 then 1 else 0)"
proof -
  have "(x + 1) div k = x div k + 1 div k + (x mod k + 1 mod k) div k"
    by (rule div_add1_eq)
  moreover have "1 div k = 0" "1 mod k = 1" using assms by simp_all
  moreover have "(x mod k + 1) div k = (if x mod k = k - 1 then 1 else 0)"
  proof (cases "x mod k = k - 1")
    case True
    then show ?thesis using assms by simp
  next
    case False
    have "0 \<le> x mod k" "x mod k < k" using assms by simp_all
    with False have "0 \<le> x mod k + 1" "x mod k + 1 < k" by linarith+
    then have "(x mod k + 1) div k = 0" by (rule div_pos_pos_trivial)
    with False show ?thesis by simp
  qed
  ultimately show ?thesis by simp
qed

lemma mod_pred:
  fixes y k :: int
  assumes "1 < k"
  shows "((y - 1) mod k = k - 1) = (y mod k = 0)"
proof -
  have eq: "(y - 1) mod k = (y mod k - 1) mod k" by (simp add: mod_diff_left_eq)
  show ?thesis
  proof (cases "y mod k = 0")
    case True
    then show ?thesis using assms eq by (simp add: zmod_minus1)
  next
    case False
    have "0 \<le> y mod k" "y mod k < k" using assms by simp_all
    with False have "0 \<le> y mod k - 1" "y mod k - 1 < k" by linarith+
    then have "(y mod k - 1) mod k = y mod k - 1" by (rule mod_pos_pos_trivial)
    with eq False \<open>y mod k < k\<close> show ?thesis by simp
  qed
qed

lemma leap_shift:
  fixes y :: int
  shows "((y - 1969) mod 4 = 3) = (y mod 4 = 0)"
    and "((y - 1901) mod 100 = 99) = (y mod 100 = 0)"
    and "((y - 1601) mod 400 = 399) = (y mod 400 = 0)"
proof -
  have "(y - 1969) mod 4 = (y - 1 + 4 * (- 492)) mod 4" by simp
  also have "\<dots> = (y - 1) mod 4" by (rule mod_mult_self2)
  finally show "((y - 1969) mod 4 = 3) = (y mod 4 = 0)" using mod_pred [of 4 y] by simp
  have "(y - 1901) mod 100 = (y - 1 + 100 * (- 19)) mod 100" by simp
  also have "\<dots> = (y - 1) mod 100" by (rule mod_mult_self2)
  finally show "((y - 1901) mod 100 = 99) = (y mod 100 = 0)" using mod_pred [of 100 y] by simp
  have "(y - 1601) mod 400 = (y - 1 + 400 * (- 4)) mod 400" by simp
  also have "\<dots> = (y - 1) mod 400" by (rule mod_mult_self2)
  finally show "((y - 1601) mod 400 = 399) = (y mod 400 = 0)" using mod_pred [of 400 y] by simp
qed

lemma centuries:
  fixes y :: int
  shows "y mod 100 = 0 \<Longrightarrow> y mod 4 = 0" and "y mod 400 = 0 \<Longrightarrow> y mod 100 = 0"
proof -
  have "(4::int) dvd 100" "(100::int) dvd 400" by simp_all
  then show "y mod 100 = 0 \<Longrightarrow> y mod 4 = 0" and "y mod 400 = 0 \<Longrightarrow> y mod 100 = 0"
    by (auto simp: mod_eq_0_iff_dvd elim: dvd_trans)
qed

lemma DayFromYear_step: "DayFromYear (y + 1) = DayFromYear y + 365 + InLeapYear y"
proof -
  have a: "(y + 1 - 1969) div 4 = (y - 1969) div 4 + (if y mod 4 = 0 then 1 else 0)"
    using div_succ [of 4 "y - 1969"] leap_shift(1) [of y] by (simp add: algebra_simps)
  have b: "(y + 1 - 1901) div 100 = (y - 1901) div 100 + (if y mod 100 = 0 then 1 else 0)"
    using div_succ [of 100 "y - 1901"] leap_shift(2) [of y] by (simp add: algebra_simps)
  have c: "(y + 1 - 1601) div 400 = (y - 1601) div 400 + (if y mod 400 = 0 then 1 else 0)"
    using div_succ [of 400 "y - 1601"] leap_shift(3) [of y] by (simp add: algebra_simps)
  show ?thesis
    unfolding DayFromYear_def InLeapYear_def a b c
    using centuries [of y] by auto
qed

lemma DayFromYear_bounds:
  "146097 * (y - 1970) - 506 \<le> 400 * DayFromYear y"
  "400 * DayFromYear y \<le> 146097 * (y - 1970) + 589"
proof -
  define a where "a = (y - 1969) div 4"
  define b where "b = (y - 1901) div 100"
  define c where "c = (y - 1601) div 400"
  have a: "4 * a \<le> y - 1969" "y - 1969 < 4 * a + 4"
    unfolding a_def by simp_all
  have b: "100 * b \<le> y - 1901" "y - 1901 < 100 * b + 100"
    unfolding b_def by simp_all
  have c: "400 * c \<le> y - 1601" "y - 1601 < 400 * c + 400"
    unfolding c_def by simp_all
  have d: "DayFromYear y = 365 * (y - 1970) + a - b + c"
    by (simp add: DayFromYear_def a_def b_def c_def)
  from a b c show "146097 * (y - 1970) - 506 \<le> 400 * DayFromYear y"
    unfolding d by (simp add: algebra_simps)
  from a b c show "400 * DayFromYear y \<le> 146097 * (y - 1970) + 589"
    unfolding d by (simp add: algebra_simps)
qed

lemma YearFromDay_spec:
  "DayFromYear (YearFromDay d) \<le> d \<and> d < DayFromYear (YearFromDay d + 1)"
proof -
  define q where "q = (400 * d) div 146097"
  have q: "146097 * q \<le> 400 * d" "400 * d < 146097 * q + 146097"
    unfolding q_def by simp_all
  have "400 * DayFromYear (1970 + q - 1) \<le> 146097 * q - 145508"
    using DayFromYear_bounds(2) [of "1970 + q - 1"] by (simp add: algebra_simps)
  with q have lo: "DayFromYear (1970 + q - 1) \<le> d" by linarith
  have "146097 * q + 291688 \<le> 400 * DayFromYear (1970 + q + 1 + 1)"
    using DayFromYear_bounds(1) [of "1970 + q + 1 + 1"] by (simp add: algebra_simps)
  with q have hi: "d < DayFromYear (1970 + q + 1 + 1)" by linarith
  show ?thesis
    using lo hi by (auto simp: YearFromDay_def Let_def q_def [symmetric])
qed

lemma DayWithinYear_bounds:
  "0 \<le> d - DayFromYear (YearFromDay d)"
  "d - DayFromYear (YearFromDay d) < 365 + InLeapYear (YearFromDay d)"
  using YearFromDay_spec [of d] DayFromYear_step [of "YearFromDay d"] by linarith+

lemma MonthFromDay_bounds: "0 \<le> MonthFromDay d \<and> MonthFromDay d \<le> 11"
  by (simp add: MonthFromDay_def Let_def)

lemma DateFromDay_bounds: "1 \<le> DateFromDay d \<and> DateFromDay d \<le> 31"
proof -
  have l: "InLeapYear (YearFromDay d) = 0 \<or> InLeapYear (YearFromDay d) = 1"
    by (simp add: InLeapYear_def)
  show ?thesis
    using DayWithinYear_bounds [of d] l
    unfolding DateFromDay_def MonthFromDay_def Let_def
    by (auto split: if_splits)
qed

lemma DayFromYear_mono: "y \<le> z \<Longrightarrow> DayFromYear y \<le> DayFromYear z"
proof (induction z rule: int_ge_induct)
  case base
  show ?case by simp
next
  case (step i)
  have "0 \<le> InLeapYear i" by (simp add: InLeapYear_def)
  with step.IH show ?case by (simp add: DayFromYear_step)
qed

lemma YearFromDay_largest: "DayFromYear y \<le> d \<Longrightarrow> y \<le> YearFromDay d"
proof (rule ccontr)
  assume le: "DayFromYear y \<le> d" and "\<not> y \<le> YearFromDay d"
  then have "YearFromDay d + 1 \<le> y" by simp
  then have "DayFromYear (YearFromDay d + 1) \<le> DayFromYear y" by (rule DayFromYear_mono)
  with le YearFromDay_spec [of d] show False by linarith
qed

subsection \<open>The calendar date of a day\<close>

lemma leap_rule:
  "(B \<Longrightarrow> A) \<Longrightarrow> (C \<Longrightarrow> B) \<Longrightarrow> ((A \<and> \<not> B) \<or> C) = (A \<and> (\<not> B \<or> C))"
  by blast

lemma InLeapYear_leapYear: "InLeapYear y = (if leapYear y then 1 else 0)"
proof -
  have "((y mod 4 = 0 \<and> y mod 100 \<noteq> 0) \<or> y mod 400 = 0)
          = (y mod 4 = 0 \<and> (y mod 100 \<noteq> 0 \<or> y mod 400 = 0))"
    by (rule leap_rule [of "y mod 100 = 0" "y mod 4 = 0" "y mod 400 = 0"])
       (erule centuries)+
  then show ?thesis by (simp only: InLeapYear_def leapYear_def)
qed

lemma DayFromYear_1970: "DayFromYear 1970 = 0"
  by (simp add: DayFromYear_def)

lemma DayFromYear_daysBeforeYear: "DayFromYear y = daysBeforeYear y"
proof (induction y rule: daysBeforeYear.induct)
  case (1 y)
  show ?case
  proof (cases "y = 1970")
    case True
    then show ?thesis by (simp add: DayFromYear_1970 daysBeforeYear.simps)
  next
    case ne: False
    show ?thesis
    proof (cases "1970 < y")
      case True
      have "DayFromYear y = DayFromYear (y - 1) + 365 + InLeapYear (y - 1)"
        using DayFromYear_step [of "y - 1"] by simp
      also have "\<dots> = daysBeforeYear (y - 1) + daysInYear (y - 1)"
        using "1.IH"(1) ne True by (simp add: InLeapYear_leapYear daysInYear_def)
      also have "\<dots> = daysBeforeYear y"
        using ne True by (subst (2) daysBeforeYear.simps) simp
      finally show ?thesis .
    next
      case False
      have "DayFromYear y = DayFromYear (y + 1) - 365 - InLeapYear y"
        using DayFromYear_step [of y] by simp
      also have "\<dots> = daysBeforeYear (y + 1) - daysInYear y"
        using "1.IH"(2) ne False by (simp add: InLeapYear_leapYear daysInYear_def)
      also have "\<dots> = daysBeforeYear y"
        using ne False by (subst (2) daysBeforeYear.simps) simp
      finally show ?thesis .
    qed
  qed
qed

lemma month_offsets:
  "sum_list (map (daysInMonth y) [1..0]) = 0"
  "sum_list (map (daysInMonth y) [1..1]) = 31"
  "sum_list (map (daysInMonth y) [1..2]) = 59 + InLeapYear y"
  "sum_list (map (daysInMonth y) [1..3]) = 90 + InLeapYear y"
  "sum_list (map (daysInMonth y) [1..4]) = 120 + InLeapYear y"
  "sum_list (map (daysInMonth y) [1..5]) = 151 + InLeapYear y"
  "sum_list (map (daysInMonth y) [1..6]) = 181 + InLeapYear y"
  "sum_list (map (daysInMonth y) [1..7]) = 212 + InLeapYear y"
  "sum_list (map (daysInMonth y) [1..8]) = 243 + InLeapYear y"
  "sum_list (map (daysInMonth y) [1..9]) = 273 + InLeapYear y"
  "sum_list (map (daysInMonth y) [1..10]) = 304 + InLeapYear y"
  "sum_list (map (daysInMonth y) [1..11]) = 334 + InLeapYear y"
  by (simp_all add: upto_rec1 daysInMonth_def InLeapYear_leapYear)

lemma daysInMonth_values:
  "daysInMonth y 1 = 31" "daysInMonth y 2 = 28 + InLeapYear y" "daysInMonth y 3 = 31"
  "daysInMonth y 4 = 30" "daysInMonth y 5 = 31" "daysInMonth y 6 = 30" "daysInMonth y 7 = 31"
  "daysInMonth y 8 = 31" "daysInMonth y 9 = 30" "daysInMonth y 10 = 31" "daysInMonth y 11 = 30"
  "daysInMonth y 12 = 31"
  by (simp_all add: daysInMonth_def InLeapYear_leapYear)

lemma civil_date_of_day:
  "validCivil (YearFromDay n) (MonthFromDay n + 1) (DateFromDay n)
   \<and> civilDay (YearFromDay n) (MonthFromDay n + 1) (DateFromDay n) = n"
proof -
  define Y where "Y = YearFromDay n"
  define w where "w = n - DayFromYear Y"
  have w: "0 \<le> w" "w < 365 + InLeapYear Y"
    using DayWithinYear_bounds [of n] by (simp_all add: w_def Y_def)
  have l: "InLeapYear Y = 0 \<or> InLeapYear Y = 1" by (simp add: InLeapYear_def)
  have n: "daysBeforeYear Y = n - w" by (simp add: w_def DayFromYear_daysBeforeYear)
  consider "w < 31" | "31 \<le> w" "w < 59 + InLeapYear Y"
    | "59 + InLeapYear Y \<le> w" "w < 90 + InLeapYear Y"
    | "90 + InLeapYear Y \<le> w" "w < 120 + InLeapYear Y"
    | "120 + InLeapYear Y \<le> w" "w < 151 + InLeapYear Y"
    | "151 + InLeapYear Y \<le> w" "w < 181 + InLeapYear Y"
    | "181 + InLeapYear Y \<le> w" "w < 212 + InLeapYear Y"
    | "212 + InLeapYear Y \<le> w" "w < 243 + InLeapYear Y"
    | "243 + InLeapYear Y \<le> w" "w < 273 + InLeapYear Y"
    | "273 + InLeapYear Y \<le> w" "w < 304 + InLeapYear Y"
    | "304 + InLeapYear Y \<le> w" "w < 334 + InLeapYear Y"
    | "334 + InLeapYear Y \<le> w" by linarith
  then show ?thesis
    using w l n
    unfolding validCivil_def civilDay_def MonthFromDay_def DateFromDay_def Let_def
      Y_def [symmetric] w_def [symmetric]
    by cases (simp_all add: month_offsets daysInMonth_values)
qed

subsection \<open>Reading the date text\<close>

lemma digitChar_table:
  "list_all (\<lambda>k. 0x30 \<le> digitChar k \<and> digitChar k \<le> 0x39 \<and> unat (digitChar k) - 0x30 = k)
     [0..<10]"
  by code_simp

lemma digitChar_value:
  "0x30 \<le> digitChar n \<and> digitChar n \<le> 0x39 \<and> unat (digitChar n) - 0x30 = n mod 10"
proof -
  have "n mod 10 \<in> set [0..<10]" by simp
  with digitChar_table
  have "0x30 \<le> digitChar (n mod 10) \<and> digitChar (n mod 10) \<le> 0x39
        \<and> unat (digitChar (n mod 10)) - 0x30 = n mod 10"
    unfolding list_all_iff by blast
  moreover have "digitChar (n mod 10) = digitChar n" by (simp add: digitChar_def)
  ultimately show ?thesis by simp
qed

lemma decimalFrom_append:
  "decimalFrom acc (xs @ ys)
     = (case decimalFrom acc xs of None \<Rightarrow> None | Some a \<Rightarrow> decimalFrom a ys)"
  by (induction xs arbitrary: acc) simp_all

lemma decimalFrom_padDigits:
  "decimalFrom acc (padDigits k n) = Some (acc * 10 ^ k + n mod 10 ^ k)"
proof (induction k arbitrary: n)
  case 0
  show ?case by simp
next
  case (Suc k)
  have "n mod (10 * 10 ^ k) = 10 * (n div 10 mod 10 ^ k) + n mod 10"
    by (rule mod_mult2_eq)
  then show ?case
    using digitChar_value [of n]
    by (simp add: decimalFrom_append Suc.IH algebra_simps)
qed

lemma padDigits_nonempty: "0 < k \<Longrightarrow> padDigits k n \<noteq> []"
  by (cases k) simp_all

lemma decimalNumber_padDigits:
  "0 < k \<Longrightarrow> n < 10 ^ k \<Longrightarrow> decimalNumber (padDigits k n) = Some n"
  by (simp add: decimalNumber_def padDigits_nonempty decimalFrom_padDigits)

lemma hd_padDigits: "0 < k \<Longrightarrow> hd (padDigits k n) \<noteq> 0x2B \<and> hd (padDigits k n) \<noteq> 0x2D"
proof -
  assume "0 < k"
  then have "hd (padDigits k n) \<in> set (padDigits k n)" by (simp add: padDigits_nonempty)
  then have "hd (padDigits k n) \<in> set (js ''0123456789'')" using padDigits_digits by blast
  then show ?thesis by (auto simp: js_def)
qed

lemma year_of_day_range:
  assumes "- 100000000 \<le> n" "n \<le> 100000000"
  shows "- 999999 \<le> YearFromDay n \<and> YearFromDay n \<le> 999999"
proof -
  define Y where "Y = YearFromDay n"
  have s: "DayFromYear Y \<le> n" "n < DayFromYear (Y + 1)"
    using YearFromDay_spec [of n] by (simp_all add: Y_def)
  have "146097 * Y \<le> 400 * DayFromYear Y + 287811596"
    using DayFromYear_bounds(1) [of Y] by (simp add: algebra_simps)
  with s(1) assms(2) have hi: "Y \<le> 999999" by linarith
  have "400 * DayFromYear (Y + 1) \<le> 146097 * Y - 287664404"
    using DayFromYear_bounds(2) [of "Y + 1"] by (simp add: algebra_simps)
  with s(2) assms(1) have lo: "- 999999 \<le> Y" by linarith
  from lo hi show ?thesis by (simp add: Y_def)
qed

lemma parseIsoDay_isoDate:
  assumes "- 999999 \<le> YearFromDay n" "YearFromDay n \<le> 999999"
  shows "parseIsoDay (isoDate n) = Some (YearFromDay n, MonthFromDay n + 1, DateFromDay n)"
proof -
  define M where "M = nat (MonthFromDay n + 1)"
  define D where "D = nat (DateFromDay n)"
  have M: "M < 100" "int M = MonthFromDay n + 1"
    using MonthFromDay_bounds [of n] unfolding M_def by linarith+
  have D: "D < 100" "int D = DateFromDay n"
    using DateFromDay_bounds [of n] unfolding D_def by linarith+
  have m: "decimalNumber (padDigits 2 M) = Some M" using M(1) by (simp add: decimalNumber_padDigits)
  have d: "decimalNumber (padDigits 2 D) = Some D" using D(1) by (simp add: decimalNumber_padDigits)
  have dash: "js ''-'' = [0x2D]" "js ''+'' = [0x2B]" by (simp_all add: js_def)
  show ?thesis
  proof (cases "0 \<le> YearFromDay n \<and> YearFromDay n \<le> 9999")
    case True
    define Y where "Y = nat (YearFromDay n)"
    have Y: "Y < 10000" "int Y = YearFromDay n" using True unfolding Y_def by linarith+
    have y: "decimalNumber (padDigits 4 Y) = Some Y" using Y(1) by (simp add: decimalNumber_padDigits)
    have ne: "padDigits 4 Y \<noteq> []" by (simp add: padDigits_nonempty)
    have h: "hd (padDigits 4 Y) \<noteq> 0x2B \<and> hd (padDigits 4 Y) \<noteq> 0x2D" by (simp add: hd_padDigits)
    have t: "isoDate n = padDigits 4 Y @ [0x2D] @ padDigits 2 M @ [0x2D] @ padDigits 2 D"
      using True by (simp add: isoDate_def isoYear_def dash Y_def M_def D_def)
    show ?thesis
      unfolding t parseIsoDay_def Let_def
      using ne h y m d Y(2) M(2) D(2)
      by (simp add: length_padDigits nth_append)
  next
    case False
    define Y where "Y = nat \<bar>YearFromDay n\<bar>"
    have Y: "Y < 1000000" using assms unfolding Y_def by linarith
    have y: "decimalNumber (padDigits 6 Y) = Some Y" using Y by (simp add: decimalNumber_padDigits)
    show ?thesis
    proof (cases "YearFromDay n < 0")
      case True
      then have Y0: "Y \<noteq> 0" "- int Y = YearFromDay n" unfolding Y_def by linarith+
      have t: "isoDate n = 0x2D # (padDigits 6 Y @ [0x2D] @ padDigits 2 M @ [0x2D] @ padDigits 2 D)"
        using True False by (simp add: isoDate_def isoYear_def dash Y_def M_def D_def)
      show ?thesis
        unfolding t parseIsoDay_def Let_def
        using y m d Y0 M(2) D(2)
        by (simp add: length_padDigits nth_append)
    next
      case pos: False
      with False have big: "\<not> Y \<le> 9999" "int Y = YearFromDay n"
        unfolding Y_def by linarith+
      have t: "isoDate n = 0x2B # (padDigits 6 Y @ [0x2D] @ padDigits 2 M @ [0x2D] @ padDigits 2 D)"
        using pos False by (simp add: isoDate_def isoYear_def dash Y_def M_def D_def)
      show ?thesis
        unfolding t parseIsoDay_def Let_def
        using y m d big M(2) D(2)
        by (simp add: length_padDigits nth_append)
    qed
  qed
qed

subsection \<open>Percent-encoding\<close>

lemma uriUnescaped_not_surrogate:
  "uriUnescaped c \<Longrightarrow> \<not> isLowSurrogate c \<and> \<not> isHighSurrogate c"
  unfolding uriUnescaped_def isLowSurrogate_def isHighSurrogate_def js_def
  by (auto simp: word_le_nat_alt word_less_nat_alt)

lemma encodeURIComponent_ok_iff: "(\<not> isl (encodeURIComponent s)) = wellFormed s"
proof (induction s rule: wellFormed.induct)
  case 1
  show ?case by simp
next
  case (2 c cs)
  show ?case
  proof (cases "isLowSurrogate c")
    case True
    then show ?thesis using uriUnescaped_not_surrogate [of c] by auto
  next
    case notlow: False
    show ?thesis
    proof (cases "isHighSurrogate c")
      case False
      have "(\<not> isl (encodeURIComponent cs)) = wellFormed cs"
        using "2.IH"(1) notlow False by blast
      then show ?thesis using notlow False
        by (cases "encodeURIComponent cs") auto
    next
      case True
      then have un: "\<not> uriUnescaped c" using uriUnescaped_not_surrogate by blast
      show ?thesis
      proof (cases cs)
        case Nil
        then show ?thesis using notlow True un by simp
      next
        case (Cons d ds)
        have ih: "(\<not> isl (encodeURIComponent ds)) = wellFormed ds"
          using "2.IH"(2) notlow True Cons by blast
        show ?thesis using notlow True un Cons ih
          by (cases "encodeURIComponent ds") simp_all
      qed
    qed
  qed
qed

lemma encodeURIComponent_error: "encodeURIComponent s = Inl e \<Longrightarrow> e = URIError"
proof (induction s arbitrary: e rule: wellFormed.induct)
  case 1
  then show ?case by simp
next
  case (2 c cs)
  show ?case
  proof (cases "isLowSurrogate c")
    case True
    then have "\<not> uriUnescaped c" using uriUnescaped_not_surrogate by blast
    with True "2.prems" show ?thesis by simp
  next
    case notlow: False
    show ?thesis
    proof (cases "isHighSurrogate c")
      case False
      have "\<And>e. encodeURIComponent cs = Inl e \<Longrightarrow> e = URIError"
        using "2.IH"(1) notlow False by blast
      then show ?thesis using notlow False "2.prems"
        by (cases "encodeURIComponent cs") (auto split: if_splits)
    next
      case True
      then have un: "\<not> uriUnescaped c" using uriUnescaped_not_surrogate by blast
      show ?thesis
      proof (cases cs)
        case Nil
        then show ?thesis using notlow True un "2.prems" by simp
      next
        case (Cons d ds)
        have ih: "\<And>e. encodeURIComponent ds = Inl e \<Longrightarrow> e = URIError"
          using "2.IH"(2) notlow True Cons by blast
        show ?thesis using notlow True un Cons ih "2.prems"
          by (cases "encodeURIComponent ds") (auto split: if_splits)
      qed
    qed
  qed
qed

subsection \<open>Percent-encoding, decoded\<close>

lemma unreserved_iff: "unreserved c = uriUnescaped c"
  by (auto simp: unreserved_def uriUnescaped_def js_def)

lemma unreserved_not_percent: "unreserved c \<Longrightarrow> c \<noteq> 0x25"
  by (auto simp: unreserved_def)

lemma hexValue_hexDigit_table:
  "list_all (\<lambda>k. hexValue (hexDigit k) = Some k) [0..<16]"
  by code_simp

lemma hexValue_hexDigit: "hexValue (hexDigit n) = Some (n mod 16)"
proof -
  have "n mod 16 \<in> set [0..<16]" by simp
  with hexValue_hexDigit_table have "hexValue (hexDigit (n mod 16)) = Some (n mod 16)"
    unfolding list_all_iff by blast
  moreover have "hexDigit (n mod 16) = hexDigit n" by (simp add: hexDigit_def)
  ultimately show ?thesis by simp
qed

lemma tokens_plain:
  "unreserved c \<Longrightarrow> tokens r = Some ts \<Longrightarrow> tokens (c # r) = Some (Plain c # ts)"
  by (simp add: unreserved_not_percent)

lemma tokens_octet:
  assumes "b < 256" "tokens r = Some ts"
  shows "tokens (percentOctet b @ r) = Some (Octet b # ts)"
proof -
  from assms(1) have "b div 16 < 16" by simp
  then have "(b div 16) mod 16 = b div 16" by simp
  then show ?thesis using assms(2)
    by (simp add: percentOctet_def hexValue_hexDigit)
qed

lemma tokens_octets:
  assumes "\<And>b. b \<in> set bs \<Longrightarrow> b < 256" "tokens r = Some ts"
  shows "tokens (concat (map percentOctet bs) @ r) = Some (map Octet bs @ ts)"
  using assms(1)
proof (induction bs)
  case Nil
  show ?case using assms(2) by simp
next
  case (Cons b bs)
  then have "tokens (concat (map percentOctet bs) @ r) = Some (map Octet bs @ ts)" by simp
  moreover have "b < 256" using Cons.prems by simp
  ultimately show ?case using tokens_octet [of b] by simp
qed

lemma utf8_octets: "v < 0x110000 \<Longrightarrow> b \<in> set (utf8 v) \<Longrightarrow> b < 256"
  by (auto simp: utf8_def split: if_splits)

lemma tokens_percentEncode:
  "v < 0x110000 \<Longrightarrow> tokens r = Some ts \<Longrightarrow>
     tokens (percentEncode v @ r) = Some (map Octet (utf8 v) @ ts)"
  unfolding percentEncode_def by (rule tokens_octets) (auto dest: utf8_octets)

lemma div64:
  fixes v :: nat
  shows "v div 0x1000 = v div 0x40 div 0x40" and "v div 0x40000 = v div 0x1000 div 0x40"
  by (simp_all add: div_mult2_eq)

lemma codePoints_utf8:
  assumes "v < 0x110000" "\<not> (0xD800 \<le> v \<and> v < 0xE000)"
    and "v < 0x80 \<Longrightarrow> \<not> unreserved (of_nat v)"
  shows "codePoints (map Octet (utf8 v) @ ts)
           = (case codePoints ts of None \<Rightarrow> None | Some vs \<Rightarrow> Some (v # vs))"
proof -
  consider (a) "v < 0x80" | (b) "0x80 \<le> v" "v < 0x800" | (c) "0x800 \<le> v" "v < 0x10000"
    | (d) "0x10000 \<le> v" by linarith
  then show ?thesis
  proof cases
    case a
    then show ?thesis using assms(3)
      by (simp add: utf8_def codePoints.simps sequenceLength_def codePointOf_def)
  next
    case b
    define q where "q = v div 0x40"
    have q: "q < 32" "2 \<le> q" using b unfolding q_def by simp_all
    have v: "q * 0x40 + v mod 0x40 = v" unfolding q_def by simp
    have u: "utf8 v = [0xC0 + q, 0x80 + v mod 0x40]" using b by (simp add: utf8_def q_def)
    show ?thesis using q v b
      by (simp add: u codePoints.simps sequenceLength_def codePointOf_def
          numeral_2_eq_2 numeral_3_eq_3)
  next
    case c
    define q where "q = v div 0x40"
    define p where "p = q div 0x40"
    have p: "p < 16" using c unfolding p_def q_def by (simp add: div64 [symmetric])
    have v: "(p * 0x40 + q mod 0x40) * 0x40 + v mod 0x40 = v" unfolding p_def q_def by simp
    have u: "utf8 v = [0xE0 + p, 0x80 + q mod 0x40, 0x80 + v mod 0x40]"
      using c by (simp add: utf8_def q_def p_def div64)
    show ?thesis using p v c assms(2)
      by (simp add: u codePoints.simps sequenceLength_def codePointOf_def
          numeral_2_eq_2 numeral_3_eq_3)
  next
    case d
    define q where "q = v div 0x40"
    define p where "p = q div 0x40"
    define h where "h = p div 0x40"
    have h: "h < 8" using assms(1) unfolding h_def p_def q_def by (simp add: div64 [symmetric])
    have v: "((h * 0x40 + p mod 0x40) * 0x40 + q mod 0x40) * 0x40 + v mod 0x40 = v"
      unfolding h_def p_def q_def by simp
    have u: "utf8 v = [0xF0 + h, 0x80 + p mod 0x40, 0x80 + q mod 0x40, 0x80 + v mod 0x40]"
      using d by (simp add: utf8_def q_def p_def h_def div64)
    show ?thesis using h v d assms(1)
      by (simp add: u codePoints.simps sequenceLength_def codePointOf_def
          numeral_2_eq_2 numeral_3_eq_3)
  qed
qed

lemma of_nat_unat_u16: "of_nat (unat c) = (c::u16)"
  by simp

lemma utf16_unit: "utf16 (unat (c::u16)) = [c]"
proof -
  have "unat c < 2 ^ LENGTH(16)" by (rule unsigned_less)
  then have "unat c < 0x10000" by simp
  then show ?thesis by (simp add: utf16_def)
qed

lemma not_surrogate_unat:
  "\<not> isLowSurrogate c \<Longrightarrow> \<not> isHighSurrogate c \<Longrightarrow> \<not> (0xD800 \<le> unat c \<and> unat c < 0xE000)"
  by (auto simp: isLowSurrogate_def isHighSurrogate_def word_le_nat_alt)

lemma surrogate_pair:
  assumes "isHighSurrogate c" "isLowSurrogate d"
  defines "v \<equiv> (unat c - 0xD800) * 0x400 + (unat d - 0xDC00) + 0x10000"
  shows "utf16 v = [c, d]" and "0x10000 \<le> v" and "v < 0x110000"
proof -
  have c: "0xD800 \<le> unat c" "unat c \<le> 0xDBFF"
    using assms(1) by (simp_all add: isHighSurrogate_def word_le_nat_alt)
  have d: "0xDC00 \<le> unat d" "unat d \<le> 0xDFFF"
    using assms(2) by (simp_all add: isLowSurrogate_def word_le_nat_alt)
  define a where "a = unat c - 0xD800"
  define b where "b = unat d - 0xDC00"
  have a: "a < 0x400" "0xD800 + a = unat c" using c by (simp_all add: a_def)
  have b: "b < 0x400" "0xDC00 + b = unat d" using d by (simp_all add: b_def)
  have v: "v = a * 0x400 + b + 0x10000" by (simp add: v_def a_def b_def)
  show "0x10000 \<le> v" by (simp add: v)
  show "v < 0x110000" using a(1) b(1) by (simp add: v)
  have "(v - 0x10000) div 0x400 = a" "(v - 0x10000) mod 0x400 = b"
    using b(1) by (simp_all add: v)
  then show "utf16 v = [c, d]" using a(2) b(2) by (simp add: utf16_def v)
qed

lemma encodeURIComponent_decodes:
  "wellFormed s \<Longrightarrow>
     \<exists>e ts vs. encodeURIComponent s = Inr e \<and> tokens e = Some ts \<and> codePoints ts = Some vs
       \<and> concat (map utf16 vs) = s"
proof (induction s rule: wellFormed.induct)
  case 1
  show ?case by (simp add: codePoints.simps)
next
  case (2 c cs)
  show ?case
  proof (cases "isLowSurrogate c")
    case True
    with "2.prems" show ?thesis by simp
  next
    case notlow: False
    show ?thesis
    proof (cases "isHighSurrogate c")
      case False
      with notlow "2.prems" have "wellFormed cs" by simp
      with "2.IH"(1) notlow False obtain e ts vs where
        ih: "encodeURIComponent cs = Inr e" "tokens e = Some ts" "codePoints ts = Some vs"
          "concat (map utf16 vs) = cs" by blast
      show ?thesis
      proof (cases "uriUnescaped c")
        case True
        then have "unreserved c" by (simp add: unreserved_iff)
        then have "tokens (c # e) = Some (Plain c # ts)" using ih(2) by (rule tokens_plain)
        moreover have "codePoints (Plain c # ts) = Some (unat c # vs)"
          using ih(3) by (simp add: codePoints.simps)
        moreover have "encodeURIComponent (c # cs) = Inr (c # e)" using True ih(1) by simp
        ultimately show ?thesis using ih(4) utf16_unit [of c] by simp
      next
        case esc: False
        have "unat c < 2 ^ LENGTH(16)" by (rule unsigned_less)
        then have lt: "unat c < 0x110000" by simp
        have "tokens (percentEncode (unat c) @ e) = Some (map Octet (utf8 (unat c)) @ ts)"
          using lt ih(2) by (rule tokens_percentEncode)
        moreover have "codePoints (map Octet (utf8 (unat c)) @ ts) = Some (unat c # vs)"
          using codePoints_utf8 [of "unat c" ts] lt not_surrogate_unat [OF notlow False] esc ih(3)
          by (simp add: unreserved_iff)
        moreover have "encodeURIComponent (c # cs) = Inr (percentEncode (unat c) @ e)"
          using esc notlow False ih(1) by simp
        ultimately show ?thesis using ih(4) utf16_unit [of c] by simp
      qed
    next
      case True
      then have un: "\<not> uriUnescaped c" using uriUnescaped_not_surrogate by blast
      from True notlow "2.prems" obtain d ds where
        cs: "cs = d # ds" and d: "isLowSurrogate d" and wf: "wellFormed ds"
        by (cases cs) auto
      with "2.IH"(2) notlow True obtain e ts vs where
        ih: "encodeURIComponent ds = Inr e" "tokens e = Some ts" "codePoints ts = Some vs"
          "concat (map utf16 vs) = ds" by blast
      define v where "v = (unat c - 0xD800) * 0x400 + (unat d - 0xDC00) + 0x10000"
      have p: "utf16 v = [c, d]" "0x10000 \<le> v" "v < 0x110000"
        unfolding v_def by (rule surrogate_pair [OF True d])+
      have "tokens (percentEncode v @ e) = Some (map Octet (utf8 v) @ ts)"
        using p(3) ih(2) by (rule tokens_percentEncode)
      moreover have "codePoints (map Octet (utf8 v) @ ts) = Some (v # vs)"
        using codePoints_utf8 [of v ts] p(2,3) ih(3) by simp
      moreover have "encodeURIComponent (c # cs) = Inr (percentEncode v @ e)"
        using un notlow True cs d ih(1) by (simp add: v_def)
      ultimately show ?thesis using ih(4) p(1) cs by simp
    qed
  qed
qed

lemma percentDecode_encodeURIComponent:
  "wellFormed s \<Longrightarrow> \<exists>e. encodeURIComponent s = Inr e \<and> percentDecode e = Some s"
  using encodeURIComponent_decodes [of s] by (auto simp: percentDecode_def)

subsection \<open>Entries\<close>

lemma forEach_map: "(\<And>x. x \<in> set xs \<Longrightarrow> f x = Inr (g x)) \<Longrightarrow> forEach f xs = Inr (map g xs)"
  by (induction xs) simp_all

lemma forEach_Inl: "forEach f xs = Inl e \<Longrightarrow> \<exists>x \<in> set xs. f x = Inl e"
  by (induction xs) (auto split: sum.splits)

lemma forEach_Inr: "forEach f xs = Inr ys \<Longrightarrow> x \<in> set xs \<Longrightarrow> \<exists>y. f x = Inr y"
  by (induction xs arbitrary: ys) (auto split: sum.splits)

lemma staticItem_string: "staticItem (JString base) p = Inr (staticEntry base p)"
  by (simp add: staticItem_def replaceTrailingSlash_def urlEntry_def lastmodTag_None
      staticEntry_def)

lemma js_append: "js (a @ b) = js a @ js b"
  by (simp add: js_def)

lemma product_path: "js ''/'' @ js ''product/'' @ r = js ''/product/'' @ r"
  by (simp add: js_def)

lemma productIdentifier_renderable:
  assumes "renderable item"
  shows "productIdentifier item = Inr (js ''product/'' @ pathSegment item)"
proof (cases "truthy (slug item)")
  case False
  then show ?thesis
    by (cases "slug item") (simp_all add: productIdentifier_def pathSegment_def)
next
  case True
  then obtain s where s: "slug item = Some s" "s \<noteq> []" by (cases "slug item") auto
  with assms have "wellFormed s" by (simp add: renderable_def)
  then have "\<not> isl (encodeURIComponent s)" by (simp add: encodeURIComponent_ok_iff)
  then obtain r where "encodeURIComponent s = Inr r" by (cases "encodeURIComponent s") auto
  with s show ?thesis
    by (simp add: productIdentifier_def pathSegment_def percentEncoded_def)
qed

lemma lastmodTag_renderable:
  assumes "renderable item"
  shows "lastmodTag (lastmodOf item) = Inr (lastmodElement item)"
proof (cases "lastmodOf item")
  case None
  then show ?thesis
    by (auto simp: lastmodOf_def lastmodElement_def lastmodTag_None split: option.splits)
next
  case (Some d)
  with assms have "validDate d" by (simp add: renderable_def)
  then have "lastmodTag (Some d) = Inr (lastmodText d)" by (rule lastmodTag_valid)
  with Some show ?thesis
    by (auto simp: lastmodOf_def lastmodElement_def split: option.splits)
qed

lemma productItem_renderable:
  assumes "renderable item"
  shows "productItem (JString base) item = Inr (productEntry base item)"
  using productIdentifier_renderable [OF assms] lastmodTag_renderable [OF assms]
  by (simp add: productItem_def replaceTrailingSlash_def urlEntry_def productEntry_def
      product_path)

lemma productItem_not_renderable:
  assumes "\<not> renderable item"
  shows "productItem (JString base) item = Inl URIError
         \<or> productItem (JString base) item = Inl RangeError"
proof (cases "case slug item of None \<Rightarrow> True | Some s \<Rightarrow> wellFormed s")
  case False
  then obtain s where s: "slug item = Some s" "\<not> wellFormed s"
    by (cases "slug item") auto
  then have "s \<noteq> []" by auto
  moreover from s have "isl (encodeURIComponent s)" using encodeURIComponent_ok_iff by blast
  then obtain e where "encodeURIComponent s = Inl e" by (cases "encodeURIComponent s") auto
  then have "encodeURIComponent s = Inl URIError" using encodeURIComponent_error by blast
  ultimately show ?thesis using s by (simp add: productItem_def productIdentifier_def)
next
  case True
  with assms obtain d where d: "lastmodOf item = Some d" "\<not> validDate d"
    by (cases "lastmodOf item") (auto simp: renderable_def)
  then have tag: "lastmodTag (lastmodOf item) = Inl RangeError"
    by (simp add: lastmodTag_invalid)
  show ?thesis
  proof (cases "productIdentifier item")
    case (Inl e)
    then have "e = URIError"
      by (auto simp: productIdentifier_def split: if_splits sum.splits
          dest: encodeURIComponent_error)
    with Inl show ?thesis by (simp add: productItem_def)
  next
    case (Inr ident)
    with tag show ?thesis
      by (simp add: productItem_def replaceTrailingSlash_def urlEntry_def)
  qed
qed

lemma composeXml_renderable:
  assumes "list_all renderable products"
  shows "composeXml (JString base) products = Inr (document base products)"
proof -
  have 1: "forEach (staticItem (JString base)) staticPages
             = Inr (map (staticEntry base) staticPages)"
    by (rule forEach_map) (rule staticItem_string)
  have 2: "forEach (productItem (JString base)) products
             = Inr (map (productEntry base) products)"
    using assms by (intro forEach_map productItem_renderable) (simp add: list_all_iff)
  show ?thesis by (simp add: composeXml_def 1 2 document_def)
qed

lemma composeXml_not_renderable:
  assumes "\<not> list_all renderable products"
  shows "composeXml (JString base) products = Inl URIError
         \<or> composeXml (JString base) products = Inl RangeError"
proof -
  have 1: "forEach (staticItem (JString base)) staticPages
             = Inr (map (staticEntry base) staticPages)"
    by (rule forEach_map) (rule staticItem_string)
  from assms obtain bad where bad: "bad \<in> set products" "\<not> renderable bad"
    by (auto simp: list_all_iff)
  show ?thesis
  proof (cases "forEach (productItem (JString base)) products")
    case (Inl e)
    from forEach_Inl [OF Inl] obtain x where "productItem (JString base) x = Inl e"
      by blast
    moreover have "e = URIError \<or> e = RangeError"
    proof (cases "renderable x")
      case True
      with \<open>productItem (JString base) x = Inl e\<close> show ?thesis
        by (simp add: productItem_renderable)
    next
      case False
      with \<open>productItem (JString base) x = Inl e\<close> show ?thesis
        using productItem_not_renderable [of x base] by auto
    qed
    ultimately show ?thesis using Inl by (auto simp: composeXml_def 1)
  next
    case (Inr ys)
    from forEach_Inr [OF Inr bad(1)] obtain y where "productItem (JString base) bad = Inr y"
      by blast
    then show ?thesis using productItem_not_renderable [OF bad(2), of base] by simp
  qed
qed

subsection \<open>Counting elements of the document\<close>

lemma occurrences_skip: "c \<notin> set a \<Longrightarrow> occurrences (c # p) (a @ b) = occurrences (c # p) b"
  by (induction a) auto

lemma lt_notin_escapeXml: "0x3C \<notin> set (escapeXml s)"
  using xmlText_no_reserved [OF xmlText_escapeXml] by blast

lemma lt_notin_isoDate: "0x3C \<notin> set (isoDate d)"
  using isoDate_plain by blast

lemma lastmodElement_cases:
  "lastmodElement item = [] \<or> (\<exists>d. lastmodElement item = js ''<lastmod>'' @ isoDate d @ js ''</lastmod>'')"
proof -
  have "lastmodText x = [] \<or> (\<exists>d. lastmodText x = js ''<lastmod>'' @ isoDate d @ js ''</lastmod>'')"
    for x by (cases x) auto
  then show ?thesis by (auto simp: lastmodElement_def split: option.splits)
qed

lemma occurrences_url_template_plain:
  assumes "0x3C \<notin> set e" "0x3C \<notin> set cf" "0x3C \<notin> set pr"
  shows "occurrences (js ''<url>'') (urlTemplate e [] cf pr @ rest)
           = 1 + occurrences (js ''<url>'') rest"
  using assms by (simp add: urlTemplate_def js_def occurrences_skip)

lemma occurrences_url_template_dated:
  assumes "0x3C \<notin> set e" "0x3C \<notin> set cf" "0x3C \<notin> set pr" "0x3C \<notin> set d"
  shows "occurrences (js ''<url>'')
           (urlTemplate e (js ''<lastmod>'' @ d @ js ''</lastmod>'') cf pr @ rest)
           = 1 + occurrences (js ''<url>'') rest"
  using assms by (simp add: urlTemplate_def js_def occurrences_skip)

lemma occurrences_urlset_template_plain:
  assumes "0x3C \<notin> set e" "0x3C \<notin> set cf" "0x3C \<notin> set pr"
  shows "occurrences (js ''<urlset'') (urlTemplate e [] cf pr @ rest)
           = occurrences (js ''<urlset'') rest"
  using assms by (simp add: urlTemplate_def js_def occurrences_skip)

lemma occurrences_urlset_template_dated:
  assumes "0x3C \<notin> set e" "0x3C \<notin> set cf" "0x3C \<notin> set pr" "0x3C \<notin> set d"
  shows "occurrences (js ''<urlset'')
           (urlTemplate e (js ''<lastmod>'' @ d @ js ''</lastmod>'') cf pr @ rest)
           = occurrences (js ''<urlset'') rest"
  using assms by (simp add: urlTemplate_def js_def occurrences_skip)

lemma occurrences_join:
  assumes "\<And>y r. y \<in> set ys \<Longrightarrow> occurrences P (y @ r) = k + occurrences P r"
    and "\<And>r. occurrences P (sep @ r) = occurrences P r"
  shows "occurrences P (join sep ys @ r) = k * length ys + occurrences P r"
  using assms
proof (induction sep ys rule: join.induct)
  case (1 sep)
  show ?case by simp
next
  case (2 sep x)
  then show ?case by simp
next
  case (3 sep x y ys)
  have "occurrences P (join sep (x # y # ys) @ r)
          = occurrences P (x @ (sep @ (join sep (y # ys) @ r)))" by simp
  also have "\<dots> = k + occurrences P (sep @ (join sep (y # ys) @ r))"
    using "3.prems"(1) by simp
  also have "\<dots> = k + occurrences P (join sep (y # ys) @ r)"
    using "3.prems"(2) by simp
  also have "\<dots> = k + (k * length (y # ys) + occurrences P r)"
    using "3.IH" "3.prems" by simp
  finally show ?case by simp
qed

lemma staticPages_plain:
  "p \<in> set staticPages \<Longrightarrow> 0x3C \<notin> set (changefreq p) \<and> 0x3C \<notin> set (priority p)"
  by (auto simp: staticPages_def js_def)

lemma weekly_plain: "0x3C \<notin> set (js ''weekly'')" "0x3C \<notin> set (js ''0.8'')"
  by (simp_all add: js_def)

lemma occurrences_url_entry:
  assumes "y \<in> set (map (staticEntry base) staticPages @ map (productEntry base) products)"
  shows "occurrences (js ''<url>'') (y @ r) = 1 + occurrences (js ''<url>'') r"
    and "occurrences (js ''<urlset'') (y @ r) = 0 + occurrences (js ''<urlset'') r"
proof -
  from assms consider p where "p \<in> set staticPages" "y = staticEntry base p"
    | item where "y = productEntry base item" by auto
  then have "occurrences (js ''<url>'') (y @ r) = 1 + occurrences (js ''<url>'') r
             \<and> occurrences (js ''<urlset'') (y @ r) = 0 + occurrences (js ''<urlset'') r"
  proof cases
    case 1
    then show ?thesis
      using staticPages_plain [of p]
      by (simp add: staticEntry_def occurrences_url_template_plain
          occurrences_urlset_template_plain lt_notin_escapeXml)
  next
    case 2
    from lastmodElement_cases [of item] show ?thesis
    proof
      assume "lastmodElement item = []"
      with 2 show ?thesis
        by (simp add: productEntry_def occurrences_url_template_plain
            occurrences_urlset_template_plain lt_notin_escapeXml weekly_plain)
    next
      assume "\<exists>d. lastmodElement item = js ''<lastmod>'' @ isoDate d @ js ''</lastmod>''"
      then obtain d where "lastmodElement item = js ''<lastmod>'' @ isoDate d @ js ''</lastmod>''"
        by blast
      with 2 show ?thesis
        by (simp add: productEntry_def occurrences_url_template_dated
            occurrences_urlset_template_dated lt_notin_escapeXml weekly_plain lt_notin_isoDate)
    qed
  qed
  then show "occurrences (js ''<url>'') (y @ r) = 1 + occurrences (js ''<url>'') r"
    and "occurrences (js ''<urlset'') (y @ r) = 0 + occurrences (js ''<urlset'') r"
    by simp_all
qed

lemma occurrences_newline:
  "occurrences (js ''<url>'') (js ''\<newline>'' @ r) = occurrences (js ''<url>'') r"
  "occurrences (js ''<urlset'') (js ''\<newline>'' @ r) = occurrences (js ''<urlset'') r"
  by (simp_all add: js_def)

lemma occurrences_url_document:
  "occurrences (js ''<url>'') (document base products) = length staticPages + length products"
proof -
  have "occurrences (js ''<url>'') (document base products)
          = occurrences (js ''<url>'')
              (join (js ''\<newline>'')
                 (map (staticEntry base) staticPages @ map (productEntry base) products)
               @ js ''\<newline></urlset>'')"
    by (simp add: document_def xmlHeader_def js_def)
  also have "\<dots> = 1 * length (map (staticEntry base) staticPages @ map (productEntry base) products)
                  + occurrences (js ''<url>'') (js ''\<newline></urlset>'')"
    by (rule occurrences_join) (simp_all only: occurrences_url_entry occurrences_newline)
  also have "\<dots> = length staticPages + length products"
    by (simp add: js_def)
  finally show ?thesis .
qed

lemma occurrences_urlset_document:
  "occurrences (js ''<urlset'') (document base products) = 1"
proof -
  have "occurrences (js ''<urlset'') (document base products)
          = 1 + occurrences (js ''<urlset'')
              (join (js ''\<newline>'')
                 (map (staticEntry base) staticPages @ map (productEntry base) products)
               @ js ''\<newline></urlset>'')"
    by (simp add: document_def xmlHeader_def js_def)
  also have "\<dots> = 1 + (0 * length (map (staticEntry base) staticPages @ map (productEntry base) products)
                  + occurrences (js ''<urlset'') (js ''\<newline></urlset>''))"
    by (subst occurrences_join) (simp_all only: occurrences_url_entry occurrences_newline)
  also have "\<dots> = 1"
    by (simp add: js_def)
  finally show ?thesis .
qed

subsection \<open>Reserved characters in the document\<close>

lemma count_escapeXml:
  "c \<in> {0x3C, 0x3E, 0x22, 0x27} \<Longrightarrow> count_list (escapeXml s) c = 0"
  using xmlText_no_reserved [OF xmlText_escapeXml, of s] by (auto simp: count_list_0_iff)

lemma count_isoDate:
  "c \<in> {0x3C, 0x3E, 0x22, 0x27} \<Longrightarrow> count_list (isoDate d) c = 0"
  using isoDate_plain [of c d] by (auto simp: count_list_0_iff)

lemma count_urlTemplate:
  "count_list (urlTemplate e tag cf pr) c
     = count_list (urlTemplate [] [] [] []) c + count_list e c + count_list tag c
       + count_list cf c + count_list pr c"
  by (simp add: urlTemplate_def)

lemma count_staticPages:
  "p \<in> set staticPages \<Longrightarrow> c \<in> {0x3C, 0x3E, 0x22, 0x27} \<Longrightarrow>
     count_list (changefreq p) c = 0 \<and> count_list (priority p) c = 0"
  by (auto simp: staticPages_def js_def)

lemma count_staticEntry:
  assumes "p \<in> set staticPages" "c \<in> {0x3C, 0x3E, 0x22, 0x27}"
  shows "count_list (staticEntry base p) c = count_list (urlTemplate [] [] [] []) c"
  using count_staticPages [OF assms] count_escapeXml [OF assms(2)]
  by (simp add: staticEntry_def count_urlTemplate [of "escapeXml _"])

lemma count_lastmodElement:
  assumes "renderable item" "c \<in> {0x3C, 0x3E, 0x22, 0x27}"
  shows "count_list (lastmodElement item) c
           = (if lastmodOf item = None then 0 else count_list (js ''<lastmod></lastmod>'') c)"
proof (cases "lastmodOf item")
  case None
  then show ?thesis
    by (auto simp: lastmodOf_def lastmodElement_def split: option.splits)
next
  case (Some d)
  with assms(1) have "validDate d" by (simp add: renderable_def)
  then obtain t where t: "d = TimeValue t" by (cases d) auto
  from Some have "lastmodElement item = lastmodText d"
    by (auto simp: lastmodOf_def lastmodElement_def split: option.splits)
  moreover have "js ''<lastmod></lastmod>'' = js ''<lastmod>'' @ js ''</lastmod>''"
    by (simp add: js_def)
  ultimately show ?thesis using t Some count_isoDate [OF assms(2), of "Day t"] by simp
qed

lemma count_productEntry:
  assumes "renderable item" "c \<in> {0x3C, 0x3E, 0x22, 0x27}"
  shows "count_list (productEntry base item) c
           = count_list (urlTemplate [] [] [] []) c
             + (if lastmodOf item = None then 0 else count_list (js ''<lastmod></lastmod>'') c)"
proof -
  have "count_list (js ''weekly'') c = 0" "count_list (js ''0.8'') c = 0"
    using assms(2) by (auto simp: js_def)
  then show ?thesis
    using count_lastmodElement [OF assms] count_escapeXml [OF assms(2)]
    by (simp add: productEntry_def count_urlTemplate [of "escapeXml _"])
qed

lemma count_join:
  "count_list (join sep ys) c
     = sum_list (map (\<lambda>y. count_list y c) ys) + (length ys - 1) * count_list sep c"
  by (induction sep ys rule: join.induct) simp_all

lemma sum_list_constant: "(\<And>x. x \<in> set xs \<Longrightarrow> f x = k) \<Longrightarrow> sum_list (map f xs) = length xs * k"
  by (induction xs) simp_all

lemma sum_count_productEntry:
  assumes "list_all renderable products" "c \<in> {0x3C, 0x3E, 0x22, 0x27}"
  shows "sum_list (map (\<lambda>item. count_list (productEntry base item) c) products)
           = length products * count_list (urlTemplate [] [] [] []) c
             + length (datedItems products) * count_list (js ''<lastmod></lastmod>'') c"
  using assms(1)
proof (induction products)
  case Nil
  show ?case by (simp add: datedItems_def)
next
  case (Cons item products)
  then have "renderable item" "list_all renderable products" by simp_all
  then show ?case
    using Cons.IH count_productEntry [OF \<open>renderable item\<close> assms(2), of base]
    by (simp add: datedItems_def algebra_simps)
qed

lemma count_document:
  assumes "list_all renderable products" "c \<in> {0x3C, 0x3E, 0x22, 0x27}"
  shows "count_list (document base products) c
           = count_list xmlHeader c
             + (length staticPages + length products) * count_list (urlTemplate [] [] [] []) c
             + length (datedItems products) * count_list (js ''<lastmod></lastmod>'') c
             + count_list (js ''\<newline></urlset>'') c"
proof -
  have nl: "count_list (js ''\<newline>'') c = 0" using assms(2) by (auto simp: js_def)
  have st: "sum_list (map (\<lambda>p. count_list (staticEntry base p) c) staticPages)
              = length staticPages * count_list (urlTemplate [] [] [] []) c"
    by (rule sum_list_constant) (rule count_staticEntry [OF _ assms(2)])
  show ?thesis
    by (simp add: document_def count_join nl st sum_count_productEntry [OF assms]
        comp_def algebra_simps)
qed

lemma markup_counts:
  "count_list xmlHeader 0x3C = 2" "count_list xmlHeader 0x3E = 2"
  "count_list xmlHeader 0x22 = 6" "count_list xmlHeader 0x27 = 0"
  "count_list (urlTemplate [] [] [] []) 0x3C = 8" "count_list (urlTemplate [] [] [] []) 0x3E = 8"
  "count_list (urlTemplate [] [] [] []) 0x22 = 0" "count_list (urlTemplate [] [] [] []) 0x27 = 0"
  "count_list (js ''<lastmod></lastmod>'') 0x3C = 2" "count_list (js ''<lastmod></lastmod>'') 0x3E = 2"
  "count_list (js ''<lastmod></lastmod>'') 0x22 = 0" "count_list (js ''<lastmod></lastmod>'') 0x27 = 0"
  "count_list (js ''\<newline></urlset>'') 0x3C = 1" "count_list (js ''\<newline></urlset>'') 0x3E = 1"
  "count_list (js ''\<newline></urlset>'') 0x22 = 0" "count_list (js ''\<newline></urlset>'') 0x27 = 0"
  by (simp_all add: xmlHeader_def urlTemplate_def js_def)

lemma ampersandsEscaped_plain: "0x26 \<notin> set s \<Longrightarrow> ampersandsEscaped s"
  by (induction s) auto

lemma ampersandsEscaped_xmlText: "xmlText s \<Longrightarrow> ampersandsEscaped s"
  by (induction s) (auto split: if_splits)

lemma ampersandsEscaped_append:
  "ampersandsEscaped a \<Longrightarrow> ampersandsEscaped b \<Longrightarrow> ampersandsEscaped (a @ b)"
proof (induction a)
  case Nil
  then show ?case by simp
next
  case (Cons c cs)
  have "prefix e (c # cs) \<Longrightarrow> prefix e (c # cs @ b)" for e
    using prefix_prefix [of e "c # cs" b] by simp
  then have "list_ex (\<lambda>e. prefix e (c # cs)) entities \<Longrightarrow> list_ex (\<lambda>e. prefix e (c # cs @ b)) entities"
    unfolding list_ex_iff by blast
  with Cons show ?case by (auto split: if_splits)
qed

lemma ampersandsEscaped_join:
  "(\<And>y. y \<in> set ys \<Longrightarrow> ampersandsEscaped y) \<Longrightarrow> ampersandsEscaped sep \<Longrightarrow>
     ampersandsEscaped (join sep ys)"
  by (induction sep ys rule: join.induct) (simp_all add: ampersandsEscaped_append)

lemma ampersandsEscaped_urlTemplate:
  assumes "ampersandsEscaped e" "0x26 \<notin> set tag" "0x26 \<notin> set cf" "0x26 \<notin> set pr"
  shows "ampersandsEscaped (urlTemplate e tag cf pr)"
  unfolding urlTemplate_def
  by (intro ampersandsEscaped_append assms(1) ampersandsEscaped_plain assms(2-4))
     (simp_all add: js_def)

lemma amp_notin_staticPages:
  "p \<in> set staticPages \<Longrightarrow> 0x26 \<notin> set (changefreq p) \<and> 0x26 \<notin> set (priority p)"
  by (auto simp: staticPages_def js_def)

lemma amp_notin_lastmodElement: "0x26 \<notin> set (lastmodElement item)"
proof -
  have "0x26 \<notin> set (lastmodText x)" for x
    using isoDate_plain by (cases x) (auto simp: js_def)
  then show ?thesis by (simp add: lastmodElement_def split: option.splits)
qed

lemma ampersandsEscaped_document: "ampersandsEscaped (document base products)"
proof -
  have entry: "ampersandsEscaped y"
    if "y \<in> set (map (staticEntry base) staticPages @ map (productEntry base) products)" for y
  proof -
    from that consider p where "p \<in> set staticPages" "y = staticEntry base p"
      | item where "y = productEntry base item" by auto
    then show ?thesis
    proof cases
      case 1
      then show ?thesis
        using amp_notin_staticPages [of p]
        by (simp add: staticEntry_def ampersandsEscaped_urlTemplate
            ampersandsEscaped_xmlText xmlText_escapeXml)
    next
      case 2
      have "0x26 \<notin> set (js ''weekly'')" "0x26 \<notin> set (js ''0.8'')" by (simp_all add: js_def)
      with 2 show ?thesis
        by (simp add: productEntry_def ampersandsEscaped_urlTemplate
            ampersandsEscaped_xmlText xmlText_escapeXml amp_notin_lastmodElement)
    qed
  qed
  have "ampersandsEscaped (js ''\<newline>'')" by (simp add: js_def)
  with entry have "ampersandsEscaped (join (js ''\<newline>'')
      (map (staticEntry base) staticPages @ map (productEntry base) products))"
    by (intro ampersandsEscaped_join)
  moreover have "ampersandsEscaped xmlHeader" by (simp add: xmlHeader_def js_def)
  moreover have "ampersandsEscaped (js ''\<newline></urlset>'')" by (simp add: js_def)
  ultimately show ?thesis by (simp add: document_def ampersandsEscaped_append)
qed

lemma composeXml_Inr:
  assumes "composeXml (JString base) products = Inr doc"
  shows "list_all renderable products \<and> doc = document base products"
proof (cases "list_all renderable products")
  case True
  with assms show ?thesis by (simp add: composeXml_renderable)
next
  case False
  with assms composeXml_not_renderable [OF False, of base] show ?thesis by simp
qed

text \<open>
  C3: escaping is total. \<open>escapeXml\<close> replaces each of the five reserved characters by
  its entity and leaves every other code unit alone, so its result has no raw \<open><\<close>,
  \<open>>\<close>, \<open>"\<close> or \<open>'\<close> and every \<open>&\<close> in it starts an entity. Every location is
  passed through \<open>escapeXml\<close> as a whole: the site URL, the identifier and the slug (of
  which \<open>encodeURIComponent\<close> has already percent-encoded all but the apostrophe). So
  in every document the builder returns, the reserved characters are those of the
  markup alone, whatever the site URL, the slugs and the identifiers contain: \<open><\<close>
  and \<open>>\<close> occur three times for the declaration and the root element, eight times
  per entry and twice more per \<open>lastmod\<close> element; \<open>"\<close> occurs six times, in the
  declaration and the namespace attribute; \<open>'\<close> does not occur; every \<open>&\<close> starts an
  entity.
\<close>

theorem reserved_characters_escaped:
  "escapeXml s = concat (map xmlEntity s)
   \<and> xmlText (escapeXml s)
   \<and> (fst (buildSitemapXml (Inr products) (JString base) w) = Inr doc \<longrightarrow>
        count_list doc 0x3C = 3 + 8 * (12 + length products) + 2 * length (datedItems products)
        \<and> count_list doc 0x3E = 3 + 8 * (12 + length products) + 2 * length (datedItems products)
        \<and> count_list doc 0x22 = 6
        \<and> count_list doc 0x27 = 0
        \<and> ampersandsEscaped doc)"
proof -
  have "count_list doc 0x3C = 3 + 8 * (12 + length products) + 2 * length (datedItems products)
        \<and> count_list doc 0x3E = 3 + 8 * (12 + length products) + 2 * length (datedItems products)
        \<and> count_list doc 0x22 = 6
        \<and> count_list doc 0x27 = 0
        \<and> ampersandsEscaped doc"
    if "fst (buildSitemapXml (Inr products) (JString base) w) = Inr doc"
  proof -
    from that have "composeXml (JString base) products = Inr doc"
      by (simp add: buildSitemapXml_def)
    then have r: "list_all renderable products" and d: "doc = document base products"
      using composeXml_Inr by blast+
    have n: "length staticPages = 12" by (simp add: staticPages_def)
    show ?thesis
      unfolding d
      by (simp add: count_document [OF r] markup_counts n ampersandsEscaped_document)
  qed
  then show ?thesis by (simp add: escapeXml_char_wise [symmetric] xmlText_escapeXml)
qed

theorem reserved_characters_escaped_witness:
  "escapeXml (js ''a&b<c>\"d'e'') = js ''a&amp;b&lt;c&gt;&quot;d&apos;e''
   \<and> fst (buildSitemapXml
          (Inr [\<lparr>objectId = js ''<1>'', slug = Some (js ''o'neil & sons''),
                 updatedAt = Some (TimeValue 1705312800000), createdAt = None\<rparr>,
                \<lparr>objectId = js ''<&\">'', slug = None, updatedAt = None, createdAt = None\<rparr>])
          (JString (js ''https://example.com/?a=<1>&b=\"2\"'')) initialWorld)
       = Inr (document (js ''https://example.com/?a=<1>&b=\"2\"'')
               [\<lparr>objectId = js ''<1>'', slug = Some (js ''o'neil & sons''),
                 updatedAt = Some (TimeValue 1705312800000), createdAt = None\<rparr>,
                \<lparr>objectId = js ''<&\">'', slug = None, updatedAt = None, createdAt = None\<rparr>])
   \<and> count_list (document (js ''https://example.com/?a=<1>&b=\"2\"'')
               [\<lparr>objectId = js ''<1>'', slug = Some (js ''o'neil & sons''),
                 updatedAt = Some (TimeValue 1705312800000), createdAt = None\<rparr>,
                \<lparr>objectId = js ''<&\">'', slug = None, updatedAt = None, createdAt = None\<rparr>])
         0x3C = 117
   \<and> count_list (document (js ''https://example.com/?a=<1>&b=\"2\"'')
               [\<lparr>objectId = js ''<1>'', slug = Some (js ''o'neil & sons''),
                 updatedAt = Some (TimeValue 1705312800000), createdAt = None\<rparr>,
                \<lparr>objectId = js ''<&\">'', slug = None, updatedAt = None, createdAt = None\<rparr>])
         0x27 = 0"
proof -
  let ?items = "[\<lparr>objectId = js ''<1>'', slug = Some (js ''o'neil & sons''),
                 updatedAt = Some (TimeValue 1705312800000), createdAt = None\<rparr>,
                \<lparr>objectId = js ''<&\">'', slug = None, updatedAt = None, createdAt = None\<rparr>]"
  let ?base = "js ''https://example.com/?a=<1>&b=\"2\"''"
  have r: "list_all renderable ?items" by code_simp
  have b: "fst (buildSitemapXml (Inr ?items) (JString ?base) initialWorld)
             = Inr (document ?base ?items)"
    by (simp add: buildSitemapXml_def composeXml_renderable [OF r])
  have n: "length (datedItems ?items) = 1" by code_simp
  have e: "concat (map xmlEntity (js ''a&b<c>\"d'e'')) = js ''a&amp;b&lt;c&gt;&quot;d&apos;e''"
    by (simp add: xmlEntity_def js_def)
  from reserved_characters_escaped
    [of "js ''a&b<c>\"d'e''" ?items ?base initialWorld "document ?base ?items"] b n e
  show ?thesis by simp
qed

subsection \<open>The builder\<close>

lemma lastmodOf_slug_update: "lastmodOf (item\<lparr>slug := v\<rparr>) = lastmodOf item"
  by (simp add: lastmodOf_def split: option.split)

text \<open>
  C10: a catalog item whose slug is the empty string is treated as an item without a
  slug. The test of the source is truthiness, and the empty string is falsy: the
  identifier is \<open>product/<id>\<close>, the entry is the one of the same item with no slug
  at all, and its location is built from the identifier path.
\<close>

theorem empty_slug_uses_identifier:
  "productIdentifier (item\<lparr>slug := Some []\<rparr>) = Inr (js ''product/'' @ objectId item)
   \<and> productItem siteUrl (item\<lparr>slug := Some []\<rparr>) = productItem siteUrl (item\<lparr>slug := None\<rparr>)
   \<and> productItem (JString base) (item\<lparr>slug := Some []\<rparr>)
       = urlEntry (stripTrailingSlash base @ js ''/'' @ js ''product/'' @ objectId item)
           (lastmodOf item) (js ''weekly'') (js ''0.8'')"
  by (simp add: productIdentifier_def productItem_def replaceTrailingSlash_def
      lastmodOf_slug_update split: jsval.split)

text \<open>
  C8: the builder is deterministic and has no effect on the state it does not own. Its
  result is the same in any two states of the module and of the process (it depends
  only on the site URL and on the answer of the catalog), it reads no clock, and it
  leaves the cache slot and the log as they were.
\<close>

theorem buildSitemapXml_deterministic:
  "fst (buildSitemapXml catalog siteUrl w1) = fst (buildSitemapXml catalog siteUrl w2)
   \<and> cachedXml (snd (buildSitemapXml catalog siteUrl w)) = cachedXml w
   \<and> cacheTimestamp (snd (buildSitemapXml catalog siteUrl w)) = cacheTimestamp w
   \<and> clockReads (snd (buildSitemapXml catalog siteUrl w)) = clockReads w
   \<and> logged (snd (buildSitemapXml catalog siteUrl w)) = logged w"
  by (simp add: buildSitemapXml_def Let_def split: sum.splits)

lemma Day_of_midnight: "Day (Day t * msPerDay) = Day t"
  by (simp add: Day_def msPerDay_def)

lemma withoutTrailingSlash_eq: "withoutTrailingSlash base = stripTrailingSlash base"
proof (cases "base = []")
  case True
  then show ?thesis by (simp add: withoutTrailingSlash_def stripTrailingSlash_def js_def)
next
  case False
  then have "suffix [0x2F] base = (last base = 0x2F)"
    by (metis append_butlast_last_id last_snoc suffix_def suffixI)
  moreover have "js ''/'' = [0x2F]" by (simp add: js_def)
  ultimately show ?thesis using False
    by (simp add: withoutTrailingSlash_def stripTrailingSlash_def butlast_conv_take)
qed

lemma urlTemplate_weekly:
  "urlTemplate e tag (js ''weekly'') (js ''0.8'')
     = js ''\<newline>  <url>\<newline>    <loc>'' @ e @ js ''</loc>\<newline>    '' @ tag
       @ js ''\<newline>    <changefreq>weekly</changefreq>\<newline>    <priority>0.8</priority>\<newline>  </url>''"
  by (simp add: urlTemplate_def js_def)

lemma isPathOf_pathSegment: "renderable item \<Longrightarrow> isPathOf item (pathSegment item)"
proof (cases "slug item")
  case None
  then show ?thesis by (simp add: isPathOf_def pathSegment_def)
next
  case (Some s)
  assume "renderable item"
  with Some have "wellFormed s" by (simp add: renderable_def)
  then obtain e where "encodeURIComponent s = Inr e" "percentDecode e = Some s"
    using percentDecode_encodeURIComponent by blast
  with Some show ?thesis by (simp add: isPathOf_def pathSegment_def percentEncoded_def)
qed

lemma day_range:
  assumes "\<bar>t :: int\<bar> \<le> 8640000000000000"
  shows "- 100000000 \<le> t div 86400000 \<and> t div 86400000 \<le> 100000000"
proof -
  define q where "q = t div 86400000"
  have "86400000 * q \<le> t" "t < 86400000 * q + 86400000" unfolding q_def by simp_all
  with assms show ?thesis unfolding q_def [symmetric] by linarith
qed

lemma isDateElement_lastmodText:
  assumes "\<bar>t :: int\<bar> \<le> 8640000000000000"
  shows "isDateElement t (lastmodText (TimeValue t))"
proof -
  define n where "n = t div 86400000"
  have n: "Day t = n" by (simp add: Day_def msPerDay_def n_def)
  have "- 999999 \<le> YearFromDay n \<and> YearFromDay n \<le> 999999"
    using day_range [OF assms] unfolding n_def [symmetric] by (intro year_of_day_range) simp_all
  then have p: "parseIsoDay (isoDate n) = Some (YearFromDay n, MonthFromDay n + 1, DateFromDay n)"
    by (intro parseIsoDay_isoDate) simp_all
  have l: "length (js ''<lastmod>'') = 9" "length (js ''</lastmod>'') = 10" by (simp_all add: js_def)
  have "take (length (js ''<lastmod>'' @ isoDate n @ js ''</lastmod>'') - 19)
          (drop 9 (js ''<lastmod>'' @ isoDate n @ js ''</lastmod>'')) = isoDate n"
    using l by simp
  then show ?thesis
    using p civil_date_of_day [of n] l
    by (simp add: isDateElement_def n n_def [symmetric] suffix_def)
qed

lemma isElementOf_TimeValue: "isDateElement t tag \<Longrightarrow> isElementOf (TimeValue t) tag"
  by simp

lemma isLastmodOf_lastmodElement: "renderable item \<Longrightarrow> isLastmodOf item (lastmodElement item)"
proof -
  assume r: "renderable item"
  have e: "isElementOf d (lastmodText d)" if "validDate d" for d
  proof (cases d)
    case (TimeValue t)
    with that have "\<bar>t\<bar> \<le> 8640000000000000" by simp
    then show ?thesis unfolding TimeValue by (rule isDateElement_lastmodText [THEN isElementOf_TimeValue])
  next
    case InvalidDate
    with that show ?thesis by simp
  qed
  show ?thesis
  proof (cases "lastmodOf item")
    case None
    then show ?thesis
      by (auto simp: lastmodOf_def isLastmodOf_def lastmodElement_def split: option.splits)
  next
    case (Some d)
    with r have "validDate d" by (simp add: renderable_def)
    with Some e show ?thesis
      by (auto simp: lastmodOf_def isLastmodOf_def lastmodElement_def split: option.splits)
  qed
qed

text \<open>
  C6: for every catalog item that the builder can render, the entry built by the code
  is the \<open>url\<close> element written out below. Its location is the site URL without a
  trailing slash, followed by \<open>/product/\<close> and a path segment, with the reserved
  characters of XML replaced by entities. The path segment is the identifier when the
  item has no slug, or an empty one, and otherwise a text that percent-decodes to the
  slug (\<open>isPathOf\<close>). The \<open>lastmod\<close> text is absent when the item has neither date, and
  otherwise is the \<open>lastmod\<close> element of the update date if there is one, else of the
  creation date: its content is a date-only ISO 8601 text, with no time of day, which
  reads as the valid Gregorian date whose day is the day of the time value
  (\<open>isLastmodOf\<close>).
\<close>

theorem product_entry_as_specified:
  "renderable item \<longrightarrow>
     productItem (JString base) item
       = Inr (js ''\<newline>  <url>\<newline>    <loc>''
              @ concat (map xmlEntity
                  (withoutTrailingSlash base @ js ''/product/'' @ pathSegment item))
              @ js ''</loc>\<newline>    '' @ lastmodElement item
              @ js ''\<newline>    <changefreq>weekly</changefreq>\<newline>    <priority>0.8</priority>\<newline>  </url>'')
     \<and> isPathOf item (pathSegment item)
     \<and> isLastmodOf item (lastmodElement item)"
  by (simp add: productItem_renderable productEntry_def urlTemplate_weekly
      escapeXml_char_wise withoutTrailingSlash_eq isPathOf_pathSegment
      isLastmodOf_lastmodElement)

theorem product_entry_as_specified_witness:
  "renderable \<lparr>objectId = js ''65a4f0'', slug = Some (js ''red shoes''),
       updatedAt = Some (TimeValue 1705312800000), createdAt = Some (TimeValue 1700000000000)\<rparr>
   \<and> productItem (JString (js ''https://example.com/''))
       \<lparr>objectId = js ''65a4f0'', slug = Some (js ''red shoes''),
        updatedAt = Some (TimeValue 1705312800000), createdAt = Some (TimeValue 1700000000000)\<rparr>
     = Inr (js ''\<newline>  <url>\<newline>    <loc>https://example.com/product/red%20shoes</loc>\<newline>    <lastmod>2024-01-15</lastmod>\<newline>    <changefreq>weekly</changefreq>\<newline>    <priority>0.8</priority>\<newline>  </url>'')
   \<and> isPathOf \<lparr>objectId = js ''65a4f0'', slug = Some (js ''red shoes''),
        updatedAt = Some (TimeValue 1705312800000), createdAt = Some (TimeValue 1700000000000)\<rparr>
       (js ''red%20shoes'')
   \<and> percentDecode (js ''red%20shoes'') = Some (js ''red shoes'')
   \<and> isLastmodOf \<lparr>objectId = js ''65a4f0'', slug = Some (js ''red shoes''),
        updatedAt = Some (TimeValue 1705312800000), createdAt = Some (TimeValue 1700000000000)\<rparr>
       (js ''<lastmod>2024-01-15</lastmod>'')
   \<and> parseIsoDay (js ''2024-01-15'') = Some (2024, 1, 15)
   \<and> civilDay 2024 1 15 = 1705312800000 div 86400000"
proof -
  let ?item = "\<lparr>objectId = js ''65a4f0'', slug = Some (js ''red shoes''),
       updatedAt = Some (TimeValue 1705312800000), createdAt = Some (TimeValue 1700000000000)\<rparr>"
  have r: "renderable ?item" by code_simp
  have p: "pathSegment ?item = js ''red%20shoes''" by code_simp
  have l: "lastmodElement ?item = js ''<lastmod>2024-01-15</lastmod>''" by code_simp
  have e: "js ''\<newline>  <url>\<newline>    <loc>''
              @ concat (map xmlEntity
                  (withoutTrailingSlash (js ''https://example.com/'') @ js ''/product/''
                   @ js ''red%20shoes''))
              @ js ''</loc>\<newline>    '' @ js ''<lastmod>2024-01-15</lastmod>''
              @ js ''\<newline>    <changefreq>weekly</changefreq>\<newline>    <priority>0.8</priority>\<newline>  </url>''
     = js ''\<newline>  <url>\<newline>    <loc>https://example.com/product/red%20shoes</loc>\<newline>    <lastmod>2024-01-15</lastmod>\<newline>    <changefreq>weekly</changefreq>\<newline>    <priority>0.8</priority>\<newline>  </url>''"
    by code_simp
  have i: "parseIsoDay (js ''2024-01-15'') = Some (2024, 1, 15)" by code_simp
  have c: "civilDay 2024 1 15 = 1705312800000 div 86400000" by code_simp
  from product_entry_as_specified [of ?item "js ''https://example.com/''"]
  have t: "productItem (JString (js ''https://example.com/'')) ?item
       = Inr (js ''\<newline>  <url>\<newline>    <loc>https://example.com/product/red%20shoes</loc>\<newline>    <lastmod>2024-01-15</lastmod>\<newline>    <changefreq>weekly</changefreq>\<newline>    <priority>0.8</priority>\<newline>  </url>'')
     \<and> isPathOf ?item (js ''red%20shoes'')
     \<and> isLastmodOf ?item (js ''<lastmod>2024-01-15</lastmod>'')"
    unfolding p l e using r by (rule mp)
  have d: "percentDecode (js ''red%20shoes'') = Some (js ''red shoes'')"
    using t [THEN conjunct2, THEN conjunct1] by (simp add: isPathOf_def js_def)
  show ?thesis
    by (intro conjI r d i c t [THEN conjunct1] t [THEN conjunct2, THEN conjunct1]
        t [THEN conjunct2, THEN conjunct2])
qed

text \<open>
  C7, as amended: for every site URL that is a string (well-formed as a URL or not) the
  builder returns the document of the specification exactly when every catalog item
  can be rendered, that is when every slug is well-formed UTF-16 and every date of last
  modification is valid; otherwise it raises \<open>URIError\<close> (an unpaired surrogate in a
  slug) or \<open>RangeError\<close> (an invalid date).
\<close>

theorem builder_returns_iff_renderable:
  "(case fst (buildSitemapXml (Inr products) (JString base) w) of
      Inr doc \<Rightarrow> list_all renderable products \<and> doc = document base products
    | Inl e \<Rightarrow> \<not> list_all renderable products \<and> (e = URIError \<or> e = RangeError))"
proof (cases "list_all renderable products")
  case True
  then show ?thesis by (simp add: buildSitemapXml_def composeXml_renderable)
next
  case False
  then show ?thesis
    using composeXml_not_renderable [OF False, of base]
    by (auto simp: buildSitemapXml_def)
qed

theorem builder_returns_iff_renderable_witness:
  "fst (buildSitemapXml
          (Inr [\<lparr>objectId = js ''65a4f0'', slug = Some (js ''red shoes''),
                 updatedAt = None, createdAt = Some (TimeValue 1700000000000)\<rparr>])
          (JString (js ''not a url <&>'')) initialWorld)
     = Inr (document (js ''not a url <&>'')
              [\<lparr>objectId = js ''65a4f0'', slug = Some (js ''red shoes''),
                updatedAt = None, createdAt = Some (TimeValue 1700000000000)\<rparr>])"
proof -
  let ?items = "[\<lparr>objectId = js ''65a4f0'', slug = Some (js ''red shoes''),
                 updatedAt = None, createdAt = Some (TimeValue 1700000000000)\<rparr>]"
  have r: "list_all renderable ?items" by code_simp
  from builder_returns_iff_renderable [of ?items "js ''not a url <&>''" initialWorld]
  show ?thesis using r by (simp split: sum.splits)
qed

text \<open>
  The claim as stated fails: an item whose date of last modification is an invalid
  \<open>Date\<close> makes the builder raise \<open>RangeError\<close>.
\<close>

theorem builder_throws_counterexample:
  "fst (buildSitemapXml
          (Inr [\<lparr>objectId = js ''65a4f0'', slug = None,
                 updatedAt = Some InvalidDate, createdAt = None\<rparr>])
          (JString (js ''https://example.com'')) initialWorld)
     = Inl RangeError"
  by (simp add: buildSitemapXml_def composeXml_def forEach_map [OF staticItem_string]
      productItem_def productIdentifier_def replaceTrailingSlash_def urlEntry_def
      lastmodOf_def lastmodTag_def newDate_def toISOString_def)

text \<open>
  C9: with no catalog item the builder returns the document of the specification for
  the empty catalog, whose entries are those of the twelve static pages. A document
  begins with the XML declaration and the start tag of the \<open>urlset\<close> element in the
  sitemap namespace, has exactly one such start tag, ends with the end tag of
  \<open>urlset\<close>, and has one \<open>url\<close> start tag per entry: twelve for the empty catalog.
\<close>

theorem empty_catalog_document:
  "fst (buildSitemapXml (Inr []) (JString base) w) = Inr (document base [])
   \<and> document base []
       = xmlHeader @ join (js ''\<newline>'') (map (staticEntry base) staticPages)
           @ js ''\<newline></urlset>''
   \<and> length staticPages = 12
   \<and> prefix (js ''<?xml version=\"1.0\" encoding=\"UTF-8\"?>\<newline><urlset\<newline>    xmlns=\"http://www.sitemaps.org/schemas/sitemap/0.9\">'')
        (document base products)
   \<and> suffix (js ''</urlset>'') (document base products)
   \<and> occurrences (js ''<urlset'') (document base products) = 1
   \<and> occurrences (js ''<url>'') (document base products) = 12 + length products
   \<and> occurrences (js ''<url>'') (document base []) = 12"
proof -
  have 1: "fst (buildSitemapXml (Inr []) (JString base) w) = Inr (document base [])"
    by (simp add: buildSitemapXml_def composeXml_renderable)
  have 2: "length staticPages = 12" by (simp add: staticPages_def)
  have 3: "prefix (js ''<?xml version=\"1.0\" encoding=\"UTF-8\"?>\<newline><urlset\<newline>    xmlns=\"http://www.sitemaps.org/schemas/sitemap/0.9\">'')
        (document base products)"
    by (simp add: document_def xmlHeader_def js_def)
  have 4: "suffix (js ''</urlset>'') (document base products)"
    by (simp add: document_def suffix_def js_def)
  show ?thesis
    using 1 2 3 4 occurrences_urlset_document [of base products]
      occurrences_url_document [of base products] occurrences_url_document [of base "[]"]
    by (simp add: document_def)
qed

subsection \<open>serveSitemap\<close>

lemma composeXml_array: "composeXml (JArray xs) products = Inl TypeError"
  by (simp add: composeXml_def staticPages_def staticItem_def replaceTrailingSlash_def)

lemma buildSitemapXml_array:
  "buildSitemapXml catalog (JArray xs) w
     = (case catalog of Inl e \<Rightarrow> Inl e | Inr products \<Rightarrow> Inl TypeError,
        w\<lparr>catalogCalls := catalogCalls w + 1\<rparr>)"
  by (simp add: buildSitemapXml_def composeXml_array split: sum.splits)

lemma jsSubtract_hour: "jsSubtract 3600000 0 = Fin 3600000"
  by code_simp

lemma jsSubtract_one: "jsSubtract 1 0 = Fin 1"
  by code_simp

text \<open>The age of an entry is a double, not the exact difference: an entry stamped
  \<open>- 2 ^ 53\<close> and read at 3 has the age \<open>2 ^ 53 + 4\<close>, and is not fresh under a TTL of
  \<open>2 ^ 53 + 4\<close>, which the exact age \<open>2 ^ 53 + 3\<close> would be.\<close>

lemma age_is_rounded:
  "jsSubtract 3 (- 9007199254740992) = Fin 9007199254740996
   \<and> \<not> cacheIsFresh (Number (js ''9007199254740996'')) 3
         \<lparr>cachedXml = Some (js ''<urlset/>''), cacheTimestamp = - 9007199254740992,
          catalogCalls = 1, clockReads = 2, logged = []\<rparr>"
proof -
  have a: "jsSubtract 3 (- 9007199254740992) = Fin 9007199254740996" by code_simp
  have n: "Number (js ''9007199254740996'') = Fin 9007199254740996" by code_simp
  show ?thesis by (simp add: cacheIsFresh_def jsLess_def a n)
qed

lemma cacheIsFresh_clockReads:
  "cacheIsFresh ttl now (w\<lparr>clockReads := n\<rparr>) = cacheIsFresh ttl now w"
  by (simp add: cacheIsFresh_def)

lemma serveSitemap_const:
  assumes "truthy (SITE_URL e) \<or> truthy (CLIENT_URL e)"
  shows "serveSitemap e clock catalog w = (serverError, w\<lparr>logged := logged w @ [TypeError]\<rparr>)"
  using assms
  by (auto simp: serveSitemap_def serveSitemapTry_def siteUrlOf_def assignToConst_def
      serverError_def)

lemma serveSitemap_fresh:
  assumes "\<not> truthy (SITE_URL e)" "\<not> truthy (CLIENT_URL e)"
    and "cacheIsFresh (cacheTtlOf e) (clock (clockReads w)) w"
  shows "serveSitemap e clock catalog w
           = (xmlResponse (case cachedXml w of None \<Rightarrow> [] | Some doc \<Rightarrow> doc),
              w\<lparr>clockReads := clockReads w + 1\<rparr>)"
  using assms
  by (simp add: serveSitemap_def serveSitemapTry_def siteUrlOf_def Let_def
      cacheIsFresh_clockReads)

lemma serveSitemap_rebuild:
  assumes "\<not> truthy (SITE_URL e)" "\<not> truthy (CLIENT_URL e)"
    and "\<not> cacheIsFresh (cacheTtlOf e) (clock (clockReads w)) w"
  shows "serveSitemap e clock catalog w
           = (serverError,
              w\<lparr>clockReads := clockReads w + 1, catalogCalls := catalogCalls w + 1,
                logged := logged w @ [case catalog of Inl err \<Rightarrow> err | Inr products \<Rightarrow> TypeError]\<rparr>)"
  using assms
  by (simp add: serveSitemap_def serveSitemapTry_def siteUrlOf_def Let_def
      cacheIsFresh_clockReads buildSitemapXml_array serverError_def split: sum.splits)

lemma serveSitemap_never_stores:
  "cachedXml (snd (serveSitemap e clock catalog w)) = cachedXml w
   \<and> cacheTimestamp (snd (serveSitemap e clock catalog w)) = cacheTimestamp w"
proof (cases "truthy (SITE_URL e) \<or> truthy (CLIENT_URL e)")
  case True
  then show ?thesis by (simp add: serveSitemap_const)
next
  case False
  then show ?thesis
    by (cases "cacheIsFresh (cacheTtlOf e) (clock (clockReads w)) w")
       (simp_all add: serveSitemap_fresh serveSitemap_rebuild)
qed

text \<open>
  C1: with the site-URL setting present, \<open>serveSitemap\<close> assigns to the constant
  \<open>SITE_URL\<close>; the assignment raises \<open>TypeError\<close>, which the handler logs, and the
  response is the server error: no document is built against the configured URL.
\<close>

theorem serveSitemap_with_site_url_setting:
  "serveSitemap
     \<lparr>SITE_URL = Some (js ''https://shop.example''), CLIENT_URL = None,
      SITEMAP_CACHE_TTL_MS = None\<rparr>
     (\<lambda>k. 1000) (Inr []) initialWorld
   = (serverError, initialWorld\<lparr>logged := [TypeError]\<rparr>)"
  by (simp add: serveSitemap_const initialWorld_def js_def)

text \<open>
  C2: a first request, with an empty cache, no URL setting and a catalog that answers
  with no item: the catalog is queried once, but the builder is given an array for the
  site URL and raises \<open>TypeError\<close>; the response is the server error and the cache
  slot stays empty, where the claim has the document built, stored and returned.
\<close>

theorem serveSitemap_first_request:
  "serveSitemap \<lparr>SITE_URL = None, CLIENT_URL = None, SITEMAP_CACHE_TTL_MS = None\<rparr>
     (\<lambda>k. 1000) (Inr []) initialWorld
   = (serverError,
      \<lparr>cachedXml = None, cacheTimestamp = 0, catalogCalls = 1, clockReads = 1,
       logged = [TypeError]\<rparr>)"
  by (simp add: serveSitemap_rebuild cacheIsFresh_def initialWorld_def)

text \<open>
  C4: when the catalog query of a request fails, the response is the server error,
  the failure is logged, the catalog has been queried once only, and the cache slot
  (document and timestamp) is as it was before the request; in particular a stale
  entry is not served.
\<close>

theorem catalog_failure_is_server_error:
  "(catalogCalls (snd (serveSitemap e clock (Inl err) w)) \<noteq> catalogCalls w \<longrightarrow>
      fst (serveSitemap e clock (Inl err) w) = serverError
      \<and> logged (snd (serveSitemap e clock (Inl err) w)) = logged w @ [err]
      \<and> catalogCalls (snd (serveSitemap e clock (Inl err) w)) = catalogCalls w + 1)
   \<and> cachedXml (snd (serveSitemap e clock (Inl err) w)) = cachedXml w
   \<and> cacheTimestamp (snd (serveSitemap e clock (Inl err) w)) = cacheTimestamp w"
proof (cases "truthy (SITE_URL e) \<or> truthy (CLIENT_URL e)")
  case True
  then show ?thesis by (simp add: serveSitemap_const)
next
  case False
  then show ?thesis
    by (cases "cacheIsFresh (cacheTtlOf e) (clock (clockReads w)) w")
       (simp_all add: serveSitemap_fresh serveSitemap_rebuild)
qed

theorem catalog_failure_is_server_error_witness:
  "catalogCalls (snd (serveSitemap
       \<lparr>SITE_URL = None, CLIENT_URL = None, SITEMAP_CACHE_TTL_MS = None\<rparr> (\<lambda>k. 3600000)
       (Inl (CatalogError (js ''ECONNREFUSED'')))
       \<lparr>cachedXml = Some (js ''<urlset/>''), cacheTimestamp = 0, catalogCalls = 0,
        clockReads = 0, logged = []\<rparr>)) \<noteq> 0
   \<and> serveSitemap
       \<lparr>SITE_URL = None, CLIENT_URL = None, SITEMAP_CACHE_TTL_MS = None\<rparr> (\<lambda>k. 3600000)
       (Inl (CatalogError (js ''ECONNREFUSED'')))
       \<lparr>cachedXml = Some (js ''<urlset/>''), cacheTimestamp = 0, catalogCalls = 0,
        clockReads = 0, logged = []\<rparr>
     = (serverError,
        \<lparr>cachedXml = Some (js ''<urlset/>''), cacheTimestamp = 0, catalogCalls = 1,
         clockReads = 1, logged = [CatalogError (js ''ECONNREFUSED'')]\<rparr>)"
proof -
  let ?e = "\<lparr>SITE_URL = None, CLIENT_URL = None, SITEMAP_CACHE_TTL_MS = None\<rparr>"
  let ?w = "\<lparr>cachedXml = Some (js ''<urlset/>''), cacheTimestamp = 0, catalogCalls = 0,
        clockReads = 0, logged = []\<rparr>"
  let ?err = "CatalogError (js ''ECONNREFUSED'')"
  have stale: "\<not> cacheIsFresh (cacheTtlOf ?e) 3600000 ?w"
    by (simp add: cacheIsFresh_def cacheTtlOf_def jsLess_def jsSubtract_hour)
  have run: "serveSitemap ?e (\<lambda>k. 3600000) (Inl ?err) ?w
     = (serverError,
        \<lparr>cachedXml = Some (js ''<urlset/>''), cacheTimestamp = 0, catalogCalls = 1,
         clockReads = 1, logged = [?err]\<rparr>)"
    using stale by (simp add: serveSitemap_rebuild)
  from catalog_failure_is_server_error [of ?e "\<lambda>k. 3600000" ?err ?w] run
  show ?thesis by simp
qed

text \<open>
  C5, as amended: the cache TTL is one hour (3,600,000 ms) when the setting is unset
  or empty; when the setting is present and not empty the TTL is \<open>Number\<close> of its text,
  with no fallback: a text that is not numeric gives \<open>NaN\<close>, nothing is raised, and
  with a TTL of \<open>NaN\<close> no cache entry is fresh, whatever its age.
\<close>

theorem cache_ttl_setting:
  "(\<not> truthy (SITEMAP_CACHE_TTL_MS e) \<longrightarrow> cacheTtlOf e = Fin 3600000)
   \<and> (SITEMAP_CACHE_TTL_MS e = Some s \<and> s \<noteq> [] \<longrightarrow> cacheTtlOf e = Number s)
   \<and> (cacheTtlOf e = NaN \<longrightarrow> \<not> cacheIsFresh (cacheTtlOf e) now w)"
  by (auto simp: cacheTtlOf_def cacheIsFresh_def jsLess_def split: jsnum.splits)

lemma Number_abc: "Number (js ''abc'') = NaN"
  by code_simp

theorem cache_ttl_setting_witness:
  "cacheTtlOf \<lparr>SITE_URL = None, CLIENT_URL = None, SITEMAP_CACHE_TTL_MS = None\<rparr> = Fin 3600000
   \<and> cacheTtlOf \<lparr>SITE_URL = None, CLIENT_URL = None, SITEMAP_CACHE_TTL_MS = Some (js ''abc'')\<rparr>
       = NaN
   \<and> \<not> cacheIsFresh
         (cacheTtlOf \<lparr>SITE_URL = None, CLIENT_URL = None, SITEMAP_CACHE_TTL_MS = Some (js ''abc'')\<rparr>)
         1
         \<lparr>cachedXml = Some (js ''<urlset/>''), cacheTimestamp = 0, catalogCalls = 1,
          clockReads = 2, logged = []\<rparr>"
proof -
  let ?e1 = "\<lparr>SITE_URL = None, CLIENT_URL = None, SITEMAP_CACHE_TTL_MS = None\<rparr>"
  let ?e2 = "\<lparr>SITE_URL = None, CLIENT_URL = None, SITEMAP_CACHE_TTL_MS = Some (js ''abc'')\<rparr>"
  let ?w = "\<lparr>cachedXml = Some (js ''<urlset/>''), cacheTimestamp = 0, catalogCalls = 1,
          clockReads = 2, logged = []\<rparr>"
  have ne: "js ''abc'' \<noteq> []" by (simp add: js_def)
  from cache_ttl_setting [of ?e1 "[]" 0 ?w] have 1: "cacheTtlOf ?e1 = Fin 3600000" by simp
  from cache_ttl_setting [of ?e2 "js ''abc''" 1 ?w] ne
  have 2: "cacheTtlOf ?e2 = Number (js ''abc'')"
    and 3: "cacheTtlOf ?e2 = NaN \<longrightarrow> \<not> cacheIsFresh (cacheTtlOf ?e2) 1 ?w"
    by simp_all
  from 1 2 3 Number_abc show ?thesis by simp
qed

text \<open>
  The claim as stated fails: with the setting \<open>abc\<close> the TTL is \<open>NaN\<close>, not the
  default, and an entry built one millisecond ago, fresh under the default, is not
  fresh.
\<close>

theorem cache_ttl_counterexample:
  "cacheTtlOf \<lparr>SITE_URL = None, CLIENT_URL = None, SITEMAP_CACHE_TTL_MS = Some (js ''abc'')\<rparr>
     \<noteq> Fin 3600000
   \<and> \<not> cacheIsFresh
         (cacheTtlOf \<lparr>SITE_URL = None, CLIENT_URL = None, SITEMAP_CACHE_TTL_MS = Some (js ''abc'')\<rparr>)
         1
         \<lparr>cachedXml = Some (js ''<urlset/>''), cacheTimestamp = 0, catalogCalls = 1,
          clockReads = 2, logged = []\<rparr>
   \<and> cacheIsFresh (Fin 3600000) 1
         \<lparr>cachedXml = Some (js ''<urlset/>''), cacheTimestamp = 0, catalogCalls = 1,
          clockReads = 2, logged = []\<rparr>"
proof -
  have "js ''abc'' \<noteq> []" by (simp add: js_def)
  then have "cacheTtlOf \<lparr>SITE_URL = None, CLIENT_URL = None,
      SITEMAP_CACHE_TTL_MS = Some (js ''abc'')\<rparr> = NaN"
    by (simp add: cacheTtlOf_def Number_abc)
  moreover have "js ''<urlset/>'' \<noteq> []" by (simp add: js_def)
  ultimately show ?thesis by (simp add: cacheIsFresh_def jsLess_def jsSubtract_one)
qed

end
